theory Spec2Isabelle
  imports Complex_Main
begin

section \<open>Scale publisher: the filters of \<^verbatim>\<open>scale_publisher_fixed.py\<close>\<close>

text \<open>
  The two filter classes of the source compute with Python \<^verbatim>\<open>float\<close> values, that is
  with IEEE 754 binary64 numbers. They are modelled as such: every sum, difference,
  product and quotient is the exact real result rounded to the nearest binary64 number
  (ties to the even significand), with overflow to an infinity, gradual underflow, the
  infinities and NaN. What Python adds to IEEE 754 is written out as well: a division
  by zero raises \<^verbatim>\<open>ZeroDivisionError\<close>, and a power with a finite base whose result
  overflows raises \<^verbatim>\<open>OverflowError\<close>.

  Two things are abstracted. The two zeros \<open>+0.0\<close> and \<open>-0.0\<close> are one value
  \<open>Finite 0\<close>: nothing in the source tells them apart, since a division by either
  raises. And there is one NaN, equal to itself as a value of the model; Python's
  \<^verbatim>\<open>==\<close>, \<^verbatim>\<open><=\<close> and \<^verbatim>\<open><\<close>, under which NaN compares false with everything, are
  the functions \<open>fle\<close> and \<open>flt\<close> below.

  \<^verbatim>\<open>InvalidConfiguration\<close> is raised nowhere in the source: it is the specification's
  name for a rejected constructor argument and is used only by the two filters that
  are modelled from the specification at the end of this part.
\<close>

datatype error = ZeroDivisionError | OverflowError | InvalidConfiguration

subsection \<open>Python floats\<close>

text \<open>
  A float is a finite real, one of the two infinities, or NaN. The reals that are
  floats are those that rounding leaves alone (\<open>is_float\<close>); \<open>valid\<close> says that a
  value is a genuine float.
\<close>

datatype pyfloat = Finite real | PInf | NInf | NaN

text \<open>Rounding a real to the nearest integer, ties to the even one.\<close>

definition round_half_even :: "real \<Rightarrow> int" where
  "round_half_even q =
     (let f = \<lfloor>q\<rfloor>; d = q - of_int f
      in if d < 1 / 2 then f
         else if 1 / 2 < d then f + 1
         else if even f then f else f + 1)"

text \<open>
  The binary exponent used to round a magnitude \<open>a\<close>: the \<open>e\<close> with
  \<open>2^e \<le> a < 2^(e+1)\<close>, kept between \<open>-1022\<close> (below it the numbers are subnormal
  and share the spacing \<open>2^-1074\<close>) and \<open>1023\<close>. It is found by counting up from
  \<open>-1022\<close>.
\<close>

fun binade :: "nat \<Rightarrow> int \<Rightarrow> real \<Rightarrow> int" where
  "binade 0 e a = e"
| "binade (Suc n) e a = (if a < 2 powi (e + 1) then e else binade n (e + 1) a)"

definition exponent :: "real \<Rightarrow> int" where
  "exponent a = binade 2045 (- 1022) a"

text \<open>
  \<open>round64\<close> rounds a real to binary64: the magnitude is rounded to a multiple of
  the spacing \<open>2^(e - 52)\<close> of its binade, and a rounded magnitude of \<open>2^1024\<close> or
  more is an infinity.
\<close>

definition huge :: real where
  "huge = 2 ^ 1024"

definition round64 :: "real \<Rightarrow> pyfloat" where
  "round64 x =
     (let a = \<bar>x\<bar>;
          u = 2 powi (exponent a - 52);
          r = of_int (round_half_even (a / u)) * u
      in if huge \<le> r then (if x < 0 then NInf else PInf)
         else Finite (if x < 0 then - r else r))"

definition is_float :: "real \<Rightarrow> bool" where
  "is_float x = (round64 x = Finite x)"

fun valid :: "pyfloat \<Rightarrow> bool" where
  "valid (Finite x) = is_float x"
| "valid _ = True"

text \<open>The infinity with the sign of \<open>s\<close>; NaN when \<open>s\<close> is zero (\<open>inf * 0.0\<close>).\<close>

definition inf_of_sign :: "real \<Rightarrow> pyfloat" where
  "inf_of_sign s = (if s = 0 then NaN else if 0 < s then PInf else NInf)"

fun fneg :: "pyfloat \<Rightarrow> pyfloat" where
  "fneg (Finite x) = Finite (- x)"
| "fneg PInf = NInf"
| "fneg NInf = PInf"
| "fneg NaN = NaN"

text \<open>\<^verbatim>\<open>a + b\<close>, \<^verbatim>\<open>a - b\<close> and \<^verbatim>\<open>a * b\<close> on floats.\<close>

fun fadd :: "pyfloat \<Rightarrow> pyfloat \<Rightarrow> pyfloat" where
  "fadd (Finite x) (Finite y) = round64 (x + y)"
| "fadd NaN _ = NaN"
| "fadd _ NaN = NaN"
| "fadd PInf NInf = NaN"
| "fadd NInf PInf = NaN"
| "fadd PInf _ = PInf"
| "fadd _ PInf = PInf"
| "fadd NInf _ = NInf"
| "fadd _ NInf = NInf"

definition fsub :: "pyfloat \<Rightarrow> pyfloat \<Rightarrow> pyfloat" where
  "fsub a b = fadd a (fneg b)"

fun fmul :: "pyfloat \<Rightarrow> pyfloat \<Rightarrow> pyfloat" where
  "fmul (Finite x) (Finite y) = round64 (x * y)"
| "fmul NaN _ = NaN"
| "fmul _ NaN = NaN"
| "fmul (Finite x) PInf = inf_of_sign x"
| "fmul (Finite x) NInf = inf_of_sign (- x)"
| "fmul PInf (Finite y) = inf_of_sign y"
| "fmul NInf (Finite y) = inf_of_sign (- y)"
| "fmul PInf PInf = PInf"
| "fmul NInf NInf = PInf"
| "fmul PInf NInf = NInf"
| "fmul NInf PInf = NInf"

text \<open>
  The quotient \<^verbatim>\<open>a / b\<close> for a divisor that is not zero; \<open>fdiv\<close> is Python's
  \<^verbatim>\<open>/\<close>, which tests the divisor first.
\<close>

fun fquot :: "pyfloat \<Rightarrow> pyfloat \<Rightarrow> pyfloat" where
  "fquot (Finite x) (Finite y) = round64 (x / y)"
| "fquot NaN _ = NaN"
| "fquot _ NaN = NaN"
| "fquot (Finite x) _ = Finite 0"
| "fquot PInf (Finite y) = inf_of_sign y"
| "fquot NInf (Finite y) = inf_of_sign (- y)"
| "fquot _ _ = NaN"

definition fdiv :: "pyfloat \<Rightarrow> pyfloat \<Rightarrow> error + pyfloat" where
  "fdiv a b = (if b = Finite 0 then Inl ZeroDivisionError else Inr (fquot a b))"

text \<open>Python's \<^verbatim>\<open>a <= b\<close> and \<^verbatim>\<open>a < b\<close>, and \<^verbatim>\<open>math.isfinite\<close>.\<close>

fun fle :: "pyfloat \<Rightarrow> pyfloat \<Rightarrow> bool" where
  "fle (Finite x) (Finite y) = (x \<le> y)"
| "fle NaN _ = False"
| "fle _ NaN = False"
| "fle NInf _ = True"
| "fle _ PInf = True"
| "fle _ _ = False"

fun flt :: "pyfloat \<Rightarrow> pyfloat \<Rightarrow> bool" where
  "flt (Finite x) (Finite y) = (x < y)"
| "flt NaN _ = False"
| "flt _ NaN = False"
| "flt NInf NInf = False"
| "flt PInf PInf = False"
| "flt NInf _ = True"
| "flt _ PInf = True"
| "flt _ _ = False"

fun isfinite :: "pyfloat \<Rightarrow> bool" where
  "isfinite (Finite x) = True"
| "isfinite _ = False"



subsection \<open>\<^verbatim>\<open>class SimpleKalmanFilter\<close>\<close>

record SimpleKalmanFilter =
  process_noise :: pyfloat
  measurement_noise :: pyfloat
  estimate :: pyfloat
  error_estimate :: pyfloat
  initialized :: bool

text \<open>
  \<^verbatim>\<open>__init__\<close> (lines 70-75) stores its two arguments and the three initial
  values. It has no \<^verbatim>\<open>raise\<close> and does no arithmetic: the result is always
  \<open>Inr\<close>.
\<close>

definition SimpleKalmanFilter_init :: "pyfloat \<Rightarrow> pyfloat \<Rightarrow> error + SimpleKalmanFilter" where
  "SimpleKalmanFilter_init pn mn =
     Inr \<lparr>process_noise = pn, measurement_noise = mn,
          estimate = Finite 0, error_estimate = Finite 1, initialized = False\<rparr>"

text \<open>
  The two locals of \<^verbatim>\<open>update\<close> that the specification names, as functions of the
  state the call starts from: \<^verbatim>\<open>predicted_error\<close> (line 84) and
  \<^verbatim>\<open>kalman_gain\<close> (line 86, the only division of the class). The divisor is the
  rounded sum \<^verbatim>\<open>predicted_error + self.measurement_noise\<close>.
\<close>

definition predicted_error :: "SimpleKalmanFilter \<Rightarrow> pyfloat" where
  "predicted_error self = fadd (error_estimate self) (process_noise self)"

definition kalman_gain :: "SimpleKalmanFilter \<Rightarrow> error + pyfloat" where
  "kalman_gain self =
     fdiv (predicted_error self) (fadd (predicted_error self) (measurement_noise self))"

text \<open>
  \<^verbatim>\<open>update\<close> (lines 77-90) returns the updated object together with the float it
  returns. When the division raises, no attribute has been assigned yet, so the
  object is left as it was and the call yields the exception alone. The literal
  \<^verbatim>\<open>1\<close> of line 88 is the float \<open>1.0\<close>.
\<close>

definition update :: "SimpleKalmanFilter \<Rightarrow> pyfloat \<Rightarrow> error + (SimpleKalmanFilter \<times> pyfloat)" where
  "update self measurement =
     (if \<not> initialized self then
        (let self1 = self\<lparr>estimate := measurement\<rparr>;
             self2 = self1\<lparr>initialized := True\<rparr>
         in Inr (self2, estimate self2))
      else
        (let predicted_estimate = estimate self
         in case kalman_gain self of
              Inl e \<Rightarrow> Inl e
            | Inr gain \<Rightarrow>
                (let self1 = self\<lparr>estimate :=
                               fadd predicted_estimate
                                 (fmul gain (fsub measurement predicted_estimate))\<rparr>;
                     self2 = self1\<lparr>error_estimate :=
                               fmul (fsub (Finite 1) gain) (predicted_error self)\<rparr>
                 in Inr (self2, estimate self2))))"

text \<open>
  A caller feeding a list of measurements to one filter, one \<^verbatim>\<open>update\<close> call
  each, in order; the first exception ends the run. \<open>feed\<close> gives the filter after
  the last call and the list of the values returned.
\<close>

fun feed :: "SimpleKalmanFilter \<Rightarrow> pyfloat list \<Rightarrow> error + (SimpleKalmanFilter \<times> pyfloat list)" where
  "feed self [] = Inr (self, [])"
| "feed self (m # ms) =
     (case update self m of
        Inl e \<Rightarrow> Inl e
      | Inr (self1, y) \<Rightarrow>
          (case feed self1 ms of
             Inl e \<Rightarrow> Inl e
           | Inr (self2, ys) \<Rightarrow> Inr (self2, y # ys)))"

text \<open>
  The states reachable from construction: \<open>session pn mn ms\<close> constructs a filter
  with the parameters \<open>pn\<close>, \<open>mn\<close> and feeds it \<open>ms\<close>.
\<close>

definition session :: "pyfloat \<Rightarrow> pyfloat \<Rightarrow> pyfloat list \<Rightarrow> error + (SimpleKalmanFilter \<times> pyfloat list)" where
  "session pn mn ms =
     (case SimpleKalmanFilter_init pn mn of
        Inl e \<Rightarrow> Inl e
      | Inr self \<Rightarrow> feed self ms)"

text \<open>
  The part of the object that the variance recursion of \<^verbatim>\<open>update\<close> reads and
  writes: everything but the estimate. It serves to state which attributes the
  measurements cannot influence.
\<close>

definition variance_part :: "SimpleKalmanFilter \<Rightarrow> pyfloat \<times> pyfloat \<times> pyfloat \<times> bool" where
  "variance_part self =
     (process_noise self, measurement_noise self, error_estimate self, initialized self)"

subsection \<open>\<^verbatim>\<open>class PositionVelocityKalmanFilter\<close>\<close>




subsection \<open>The moving-average filter\<close>






subsection \<open>The exponential moving average\<close>





section \<open>Auxiliary facts about rounding\<close>

lemma binade_range: "e \<le> binade n e a \<and> binade n e a \<le> e + int n"
proof (induction n arbitrary: e)
  case 0
  show ?case by simp
next
  case (Suc n)
  from Suc [of "e + 1"] show ?case by auto
qed

lemma binade_lower: "e < binade n e a \<Longrightarrow> 2 powi (binade n e a) \<le> a"
proof (induction n arbitrary: e)
  case 0
  then show ?case by simp
next
  case (Suc n)
  show ?case
  proof (cases "a < 2 powi (e + 1)")
    case True
    with Suc.prems show ?thesis by simp
  next
    case False
    then have b: "binade (Suc n) e a = binade n (e + 1) a" by simp
    show ?thesis
    proof (cases "e + 1 < binade n (e + 1) a")
      case True
      from Suc.IH [OF True] b show ?thesis by simp
    next
      case f: False
      with binade_range [of "e + 1" n a] have "binade n (e + 1) a = e + 1" by simp
      with b False show ?thesis by simp
    qed
  qed
qed

lemma binade_upper: "binade n e a < e + int n \<Longrightarrow> a < 2 powi (binade n e a + 1)"
proof (induction n arbitrary: e)
  case 0
  then show ?case by simp
next
  case (Suc n)
  show ?case
  proof (cases "a < 2 powi (e + 1)")
    case True
    then show ?thesis by simp
  next
    case False
    then have b: "binade (Suc n) e a = binade n (e + 1) a" by simp
    with Suc.prems have "binade n (e + 1) a < (e + 1) + int n" by simp
    from Suc.IH [OF this] b show ?thesis by simp
  qed
qed

lemma exponent_range: "- 1022 \<le> exponent a" "exponent a \<le> 1023"
  using binade_range [of "- 1022" 2045 a] by (simp_all add: exponent_def)

lemma exponent_lower: "- 1022 < exponent a \<Longrightarrow> 2 powi (exponent a) \<le> a"
  unfolding exponent_def by (rule binade_lower)

lemma exponent_upper: "exponent a < 1023 \<Longrightarrow> a < 2 powi (exponent a + 1)"
  unfolding exponent_def using binade_upper [of 2045 "- 1022" a] by simp

lemma powi2_mono: "m \<le> n \<Longrightarrow> (2::real) powi m \<le> 2 powi n"
  by (rule power_int_increasing) simp_all

lemma powi2_less: "m < n \<Longrightarrow> (2::real) powi m < 2 powi n"
  by (rule power_int_strict_increasing) simp_all

lemma powi2_pos [simp]: "0 < (2::real) powi k"
  by simp

lemma exponent_eq:
  assumes "2 powi E \<le> a" "a < 2 powi (E + 1)" "- 1022 \<le> E" "E \<le> 1023"
  shows "exponent a = E"
proof (rule ccontr)
  assume ne: "exponent a \<noteq> E"
  show False
  proof (cases "exponent a < E")
    case True
    with assms(4) have "exponent a < 1023" by simp
    from exponent_upper [OF this] have "a < 2 powi (exponent a + 1)" .
    also have "\<dots> \<le> 2 powi E" using True by (intro powi2_mono) simp
    finally show False using assms(1) by simp
  next
    case False
    with ne have gt: "E < exponent a" by simp
    with assms(3) have "- 1022 < exponent a" by simp
    from exponent_lower [OF this] have "2 powi (exponent a) \<le> a" .
    moreover have "2 powi (E + 1) \<le> (2::real) powi (exponent a)"
      using gt by (intro powi2_mono) simp
    ultimately show False using assms(2) by simp
  qed
qed

lemma exponent_small:
  assumes "a < 2 powi (- 1021)"
  shows "exponent a = - 1022"
proof (rule ccontr)
  assume "exponent a \<noteq> - 1022"
  with exponent_range(1) [of a] have gt: "- 1022 < exponent a" by simp
  from exponent_lower [OF gt] have "2 powi (exponent a) \<le> a" .
  moreover have "2 powi (- 1021) \<le> (2::real) powi (exponent a)"
    using gt by (intro powi2_mono) simp
  ultimately show False using assms by simp
qed

lemma exponent_big:
  assumes "2 powi 1023 \<le> a"
  shows "exponent a = 1023"
proof (rule ccontr)
  assume "exponent a \<noteq> 1023"
  with exponent_range(2) [of a] have lt: "exponent a < 1023" by simp
  from exponent_upper [OF lt] have "a < 2 powi (exponent a + 1)" .
  also have "\<dots> \<le> 2 powi 1023" using lt by (intro powi2_mono) simp
  finally show False using assms by simp
qed

lemma rhe_of_int [simp]: "round_half_even (of_int n) = n"
  by (simp add: round_half_even_def)

lemma rhe_zero [simp]: "round_half_even 0 = 0"
  by (simp add: round_half_even_def)

lemma rhe_bounds: "\<lfloor>q\<rfloor> \<le> round_half_even q" "round_half_even q \<le> \<lceil>q\<rceil>"
proof -
  show "\<lfloor>q\<rfloor> \<le> round_half_even q" by (simp add: round_half_even_def Let_def)
  have "q - of_int \<lfloor>q\<rfloor> \<noteq> 0 \<Longrightarrow> \<lfloor>q\<rfloor> + 1 \<le> \<lceil>q\<rceil>"
    by (metis ceiling_altdef diff_self eq_iff of_int_floor_cancel)
  moreover have "q - of_int \<lfloor>q\<rfloor> = 0 \<Longrightarrow> q - of_int \<lfloor>q\<rfloor> < 1 / 2" by simp
  ultimately show "round_half_even q \<le> \<lceil>q\<rceil>"
    by (auto simp: round_half_even_def Let_def ceiling_altdef)
qed

lemma rhe_nonneg: "0 \<le> q \<Longrightarrow> 0 \<le> round_half_even q"
  using rhe_bounds(1) [of q] by (meson order_trans zero_le_floor)

lemma round64_nonneg:
  assumes "0 \<le> x"
  shows "round64 x =
    (if huge \<le> of_int (round_half_even (x / 2 powi (exponent x - 52))) * 2 powi (exponent x - 52)
     then PInf
     else Finite (of_int (round_half_even (x / 2 powi (exponent x - 52))) * 2 powi (exponent x - 52)))"
  using assms by (simp add: round64_def Let_def)

lemma huge_pos [simp]: "0 < huge"
  by (simp add: huge_def)

lemma round64_zero [simp]: "round64 0 = Finite 0"
  using huge_pos by (simp add: round64_def Let_def not_le del: huge_pos)

lemma round64_minus: "round64 (- x) = fneg (round64 x)"
proof (cases "x = 0")
  case True
  then show ?thesis by simp
next
  case False
  then show ?thesis by (cases "x < 0") (simp_all add: round64_def Let_def)
qed

lemma round64_exact_pos:
  assumes m: "0 \<le> m" "m < 2 ^ 53" and e: "- 1074 \<le> e"
    and lt: "of_int m * 2 powi e < huge"
  shows "round64 (of_int m * 2 powi e) = Finite (of_int m * 2 powi e)"
proof -
  define a :: real where "a = of_int m * 2 powi e"
  define E where "E = exponent a"
  have a0: "0 \<le> a" using m(1) by (simp add: a_def)
  have le: "E - 52 \<le> e"
  proof (cases "E = - 1022")
    case True
    with e show ?thesis by simp
  next
    case False
    with exponent_range(1) [of a] have "- 1022 < exponent a" by (simp add: E_def)
    from exponent_lower [OF this] have "2 powi E \<le> a" by (simp add: E_def)
    also have "a < 2 ^ 53 * 2 powi e"
      unfolding a_def using m(2) by (intro mult_strict_right_mono) simp_all
    also have "(2::real) ^ 53 * 2 powi e = 2 powi (53 + e)"
      by (simp add: power_int_add)
    finally have "(2::real) powi E < 2 powi (53 + e)" .
    then have "E < 53 + e" using powi2_mono [of "53 + e" E] by (cases "E < 53 + e") simp_all
    then show ?thesis by simp
  qed
  define k where "k = nat (e - (E - 52))"
  have ek: "e = (E - 52) + int k" using le by (simp add: k_def)
  have q: "a / 2 powi (E - 52) = of_int (m * 2 ^ k)"
    by (simp add: a_def ek power_int_add)
  have r: "of_int (round_half_even (a / 2 powi (E - 52))) * 2 powi (E - 52) = a"
    unfolding q rhe_of_int by (simp add: a_def ek power_int_add)
  show ?thesis
    using round64_nonneg [OF a0] lt unfolding E_def [symmetric] r a_def [symmetric]
    by (simp add: a_def)
qed

lemma round64_exact:
  assumes m: "\<bar>m\<bar> \<le> 2 ^ 53" and e: "- 1074 \<le> e"
    and lt: "\<bar>of_int m * 2 powi e\<bar> < huge"
  shows "round64 (of_int m * 2 powi e) = Finite (of_int m * 2 powi e)"
proof -
  have pos: "round64 (of_int n * 2 powi e) = Finite (of_int n * 2 powi e)"
    if n: "0 \<le> n" "n \<le> 2 ^ 53" and b: "of_int n * 2 powi e < huge" for n
  proof (cases "n = 2 ^ 53")
    case False
    with n have "n < 2 ^ 53" by simp
    from round64_exact_pos [OF n(1) this e b] show ?thesis .
  next
    case True
    have eq: "of_int n * 2 powi e = (of_int (2 ^ 52) * 2 powi (e + 1) :: real)"
      by (simp add: True power_int_add)
    have "round64 (of_int (2 ^ 52) * 2 powi (e + 1)) = Finite (of_int (2 ^ 52) * 2 powi (e + 1))"
      using e b unfolding eq by (intro round64_exact_pos) simp_all
    then show ?thesis unfolding eq .
  qed
  show ?thesis
  proof (cases "0 \<le> m")
    case True
    then have "\<bar>of_int m * 2 powi e\<bar> = (of_int m * 2 powi e :: real)" by simp
    with pos [of m] True m lt show ?thesis by simp
  next
    case False
    then have neg: "0 \<le> - m" "- m \<le> 2 ^ 53" using m by simp_all
    have "\<bar>of_int m * 2 powi e\<bar> = (of_int (- m) * 2 powi e :: real)"
      using False by (simp add: abs_mult)
    with lt have "of_int (- m) * 2 powi e < huge" by simp
    from pos [OF neg this] have "round64 (- (of_int m * 2 powi e)) = Finite (- (of_int m * 2 powi e))"
      by simp
    then show ?thesis unfolding round64_minus by (cases "round64 (of_int m * 2 powi e)") simp_all
  qed
qed

lemma round64_form_pos:
  assumes x: "0 \<le> x" and r: "round64 x = Finite y"
  shows "\<exists>m e. 0 \<le> m \<and> m \<le> 2 ^ 53 \<and> - 1074 \<le> e \<and> y = of_int m * 2 powi e \<and> 0 \<le> y \<and> y < huge"
proof -
  define E where "E = exponent x"
  define u :: real where "u = 2 powi (E - 52)"
  define n where "n = round_half_even (x / u)"
  have u0: "0 < u" by (simp add: u_def)
  from r round64_nonneg [OF x] have y: "y = of_int n * u" and lt: "of_int n * u < huge"
    by (auto simp: E_def u_def n_def split: if_splits)
  have n0: "0 \<le> n" unfolding n_def using x u0 by (intro rhe_nonneg) simp
  have e: "- 1074 \<le> E - 52" using exponent_range(1) [of x] by (simp add: E_def)
  have n53: "n \<le> 2 ^ 53"
  proof (cases "E = 1023")
    case True
    have "huge = (2::real) ^ 53 * 2 ^ 971" unfolding huge_def by (simp only: power_add [symmetric]) simp
    then have "of_int n * (2::real) ^ 971 < 2 ^ 53 * 2 ^ 971" using lt by (simp add: u_def True)
    then have "(of_int n :: real) < 2 ^ 53" by simp
    then show ?thesis by simp
  next
    case False
    with exponent_range(2) [of x] have "exponent x < 1023" by (simp add: E_def)
    from exponent_upper [OF this] have "x < 2 powi (E + 1)" by (simp add: E_def)
    then have "x / u < 2 powi (E + 1) / u" using u0 by (simp add: divide_strict_right_mono)
    also have "2 powi (E + 1) / u = 2 ^ 53"
      by (simp add: u_def power_int_diff [symmetric])
    finally have "x / u \<le> of_int (2 ^ 53)" by simp
    then have "\<lceil>x / u\<rceil> \<le> 2 ^ 53" by (simp only: ceiling_le_iff)
    with rhe_bounds(2) [of "x / u"] show ?thesis unfolding n_def by (rule order_trans)
  qed
  have "0 \<le> y" using n0 u0 by (simp add: y)
  with n0 n53 e y lt show ?thesis unfolding u_def by blast
qed

lemma round64_idem:
  assumes "round64 x = Finite y"
  shows "is_float y"
proof (cases "0 \<le> x")
  case True
  from round64_form_pos [OF True assms] obtain m e where
    "0 \<le> m" "m \<le> 2 ^ 53" "- 1074 \<le> e" "y = of_int m * 2 powi e" "0 \<le> y" "y < huge"
    by blast
  then show ?thesis unfolding is_float_def
    using round64_exact [of m e] by simp
next
  case False
  then have x: "0 \<le> - x" by simp
  from assms have "round64 (- x) = Finite (- y)" by (simp add: round64_minus)
  from round64_form_pos [OF x this] obtain m e where
    "0 \<le> m" "m \<le> 2 ^ 53" "- 1074 \<le> e" "- y = of_int m * 2 powi e" "0 \<le> - y" "- y < huge"
    by blast
  then have "round64 (- y) = Finite (- y)"
    using round64_exact [of m e] by simp
  then show ?thesis unfolding is_float_def round64_minus
    by (cases "round64 y") simp_all
qed

lemma is_float_minus: "is_float (- y) = is_float y"
  unfolding is_float_def round64_minus by (cases "round64 y") auto

lemma is_float_form_pos:
  assumes "is_float y" "0 \<le> y"
  shows "\<exists>m e. 0 \<le> m \<and> m \<le> 2 ^ 53 \<and> - 1074 \<le> e \<and> y = of_int m * 2 powi e \<and> y < huge"
  using round64_form_pos [OF assms(2), of y] assms(1) unfolding is_float_def by blast

lemma is_float_0 [simp]: "is_float 0"
  by (simp add: is_float_def)

lemma round64_le_pos:
  assumes fy: "is_float y" and x0: "0 \<le> x" and xy: "x \<le> y"
  shows "\<exists>z. round64 x = Finite z \<and> 0 \<le> z \<and> z \<le> y"
proof -
  from x0 xy have y0: "0 \<le> y" by simp
  from is_float_form_pos [OF fy y0] obtain m e where
    m: "0 \<le> m" "m \<le> 2 ^ 53" and e: "- 1074 \<le> e" and y: "y = of_int m * 2 powi e"
    and lt: "y < huge" by blast
  define E where "E = exponent x"
  define u :: real where "u = 2 powi (E - 52)"
  define n where "n = round_half_even (x / u)"
  have u0: "0 < u" by (simp add: u_def)
  have n0: "0 \<le> n" unfolding n_def using x0 u0 by (intro rhe_nonneg) simp
  have ceil: "of_int \<lceil>x / u\<rceil> * u \<le> y"
  proof (cases "E - 52 \<le> e")
    case True
    define k where "k = nat (e - (E - 52))"
    have ek: "e = (E - 52) + int k" using True by (simp add: k_def)
    have yu: "y = of_int (m * 2 ^ k) * u"
      by (simp add: y u_def ek power_int_add)
    have "x / u \<le> y / u" using xy u0 by (simp add: divide_right_mono)
    also have "y / u = of_int (m * 2 ^ k)" using u0 by (simp add: yu)
    finally have "\<lceil>x / u\<rceil> \<le> m * 2 ^ k" by (simp only: ceiling_le_iff)
    then have "(of_int \<lceil>x / u\<rceil> :: real) \<le> of_int (m * 2 ^ k)" by (simp only: of_int_le_iff)
    then have "of_int \<lceil>x / u\<rceil> * u \<le> of_int (m * 2 ^ k) * u"
      using u0 by (simp only: mult_le_cancel_right_pos)
    then show ?thesis by (simp only: yu)
  next
    case False
    then have eE: "53 + e \<le> E" by simp
    with e have "- 1022 < exponent x" by (simp add: E_def)
    from exponent_lower [OF this] have Ex: "2 powi E \<le> x" by (simp add: E_def)
    have "y \<le> 2 ^ 53 * 2 powi e"
      unfolding y using m(2) by (intro mult_right_mono) simp_all
    also have "(2::real) ^ 53 * 2 powi e = 2 powi (53 + e)" by (simp add: power_int_add)
    also have "\<dots> \<le> 2 powi E" using eE by (rule powi2_mono)
    finally have yE: "y \<le> 2 powi E" .
    with Ex xy have xE: "x = 2 powi E" and yE': "y = 2 powi E" by simp_all
    have "x / u = of_int (2 ^ 52)"
      by (simp add: xE u_def power_int_diff [symmetric])
    then have "of_int \<lceil>x / u\<rceil> * u = 2 ^ 52 * u" by simp
    also have "\<dots> = 2 powi E" by (simp add: u_def power_int_diff)
    finally show ?thesis using yE' by simp
  qed
  have "of_int n \<le> (of_int \<lceil>x / u\<rceil> :: real)"
    using rhe_bounds(2) [of "x / u"] unfolding n_def by (simp only: of_int_le_iff)
  then have "of_int n * u \<le> of_int \<lceil>x / u\<rceil> * u"
    using u0 by (simp only: mult_le_cancel_right_pos)
  with ceil have ry: "of_int n * u \<le> y" by simp
  with lt have "\<not> huge \<le> of_int n * u" by simp
  with round64_nonneg [OF x0] have "round64 x = Finite (of_int n * u)"
    by (simp add: n_def u_def E_def)
  moreover have "0 \<le> of_int n * u" using n0 u0 by simp
  ultimately show ?thesis using ry by blast
qed

lemma round64_ge_pos:
  assumes fy: "is_float y" and y0: "0 \<le> y" and yx: "y \<le> x"
  shows "round64 x = PInf \<or> (\<exists>z. round64 x = Finite z \<and> y \<le> z)"
proof -
  from y0 yx have x0: "0 \<le> x" by simp
  from is_float_form_pos [OF fy y0] obtain m e where
    m: "0 \<le> m" "m \<le> 2 ^ 53" and e: "- 1074 \<le> e" and y: "y = of_int m * 2 powi e"
    and lt: "y < huge" by blast
  define E where "E = exponent x"
  define u :: real where "u = 2 powi (E - 52)"
  define n where "n = round_half_even (x / u)"
  have u0: "0 < u" by (simp add: u_def)
  have flo: "y \<le> of_int \<lfloor>x / u\<rfloor> * u"
  proof (cases "E - 52 \<le> e")
    case True
    define k where "k = nat (e - (E - 52))"
    have ek: "e = (E - 52) + int k" using True by (simp add: k_def)
    have yu: "y = of_int (m * 2 ^ k) * u"
      by (simp add: y u_def ek power_int_add)
    have "y / u \<le> x / u" using yx u0 by (simp add: divide_right_mono)
    moreover have "y / u = of_int (m * 2 ^ k)" using u0 by (simp add: yu)
    ultimately have "of_int (m * 2 ^ k) \<le> x / u" by simp
    then have "m * 2 ^ k \<le> \<lfloor>x / u\<rfloor>" by (simp only: le_floor_iff)
    then have "(of_int (m * 2 ^ k) :: real) \<le> of_int \<lfloor>x / u\<rfloor>" by (simp only: of_int_le_iff)
    then have "of_int (m * 2 ^ k) * u \<le> of_int \<lfloor>x / u\<rfloor> * u"
      using u0 by (simp only: mult_le_cancel_right_pos)
    then show ?thesis by (simp only: yu)
  next
    case False
    then have eE: "53 + e \<le> E" by simp
    with e have "- 1022 < exponent x" by (simp add: E_def)
    from exponent_lower [OF this] have Ex: "2 powi E \<le> x" by (simp add: E_def)
    have "y \<le> 2 ^ 53 * 2 powi e"
      unfolding y using m(2) by (intro mult_right_mono) simp_all
    also have "(2::real) ^ 53 * 2 powi e = 2 powi (53 + e)" by (simp add: power_int_add)
    also have "\<dots> \<le> 2 powi E" using eE by (rule powi2_mono)
    finally have yE: "y \<le> 2 powi E" .
    have "2 powi E / u \<le> x / u" using Ex u0 by (simp add: divide_right_mono)
    moreover have "2 powi E / u = of_int (2 ^ 52)"
      by (simp add: u_def power_int_diff [symmetric])
    ultimately have "of_int (2 ^ 52) \<le> x / u" by simp
    then have "2 ^ 52 \<le> \<lfloor>x / u\<rfloor>" by (simp only: le_floor_iff)
    then have "(of_int (2 ^ 52) :: real) \<le> of_int \<lfloor>x / u\<rfloor>" by (simp only: of_int_le_iff)
    then have "of_int (2 ^ 52) * u \<le> of_int \<lfloor>x / u\<rfloor> * u"
      using u0 by (simp only: mult_le_cancel_right_pos)
    moreover have "of_int (2 ^ 52) * u = 2 powi E" by (simp add: u_def power_int_diff)
    ultimately show ?thesis using yE by simp
  qed
  have "(of_int \<lfloor>x / u\<rfloor> :: real) \<le> of_int n"
    using rhe_bounds(1) [of "x / u"] unfolding n_def by (simp only: of_int_le_iff)
  then have "of_int \<lfloor>x / u\<rfloor> * u \<le> of_int n * u"
    using u0 by (simp only: mult_le_cancel_right_pos)
  with flo have ry: "y \<le> of_int n * u" by simp
  from round64_nonneg [OF x0] have
    "round64 x = PInf \<or> round64 x = Finite (of_int n * u)"
    by (simp add: n_def u_def E_def)
  with ry show ?thesis by blast
qed

lemma fle_fneg: "fle (fneg a) (fneg b) = fle b a"
  by (cases a; cases b) simp_all

lemma round64_le:
  assumes fy: "is_float y" and xy: "x \<le> y"
  shows "fle (round64 x) (Finite y)"
proof (cases "0 \<le> x")
  case True
  from round64_le_pos [OF fy True xy] show ?thesis by auto
next
  case False
  then have nx: "0 \<le> - x" by simp
  show ?thesis
  proof (cases "0 \<le> y")
    case True
    from round64_ge_pos [OF is_float_0 order_refl nx]
    have "fle (Finite 0) (round64 (- x))" by auto
    then have "fle (round64 x) (Finite 0)"
      unfolding round64_minus by (cases "round64 x") simp_all
    with True show ?thesis by (cases "round64 x") simp_all
  next
    case False
    then have ny: "0 \<le> - y" "- y \<le> - x" using xy by simp_all
    from fy have "is_float (- y)" by (simp add: is_float_minus)
    from round64_ge_pos [OF this ny]
    have "fle (Finite (- y)) (round64 (- x))" by auto
    then show ?thesis unfolding round64_minus by (cases "round64 x") simp_all
  qed
qed

lemma round64_ge:
  assumes fy: "is_float y" and yx: "y \<le> x"
  shows "fle (Finite y) (round64 x)"
proof -
  from fy have "is_float (- y)" by (simp add: is_float_minus)
  moreover from yx have "- x \<le> - y" by simp
  ultimately have "fle (round64 (- x)) (Finite (- y))" by (rule round64_le)
  then show ?thesis unfolding round64_minus by (cases "round64 x") simp_all
qed


lemma round64_eval:
  assumes "2 powi E \<le> x" "x < 2 powi (E + 1)" "- 1022 \<le> E" "E \<le> 1023"
    and "round_half_even (x / 2 powi (E - 52)) = n"
    and "of_int n * 2 powi (E - 52) = r" "r < huge"
  shows "round64 x = Finite r"
proof -
  have E: "exponent x = E" using assms(1-4) by (rule exponent_eq)
  have "0 < x" using assms(1) powi2_pos [of E] by linarith
  then have "0 \<le> x" by simp
  from round64_nonneg [OF this] assms(5-7) show ?thesis by (simp add: E)
qed

lemma round64_eval_subnormal:
  assumes "0 \<le> x" "x < 2 powi (- 1021)"
    and "round_half_even (x / 2 powi (- 1074)) = n"
    and "of_int n * 2 powi (- 1074) = r"
  shows "round64 x = Finite r"
proof -
  have E: "exponent x = - 1022" using assms(2) by (rule exponent_small)
  have "x / 2 powi (- 1074) < 2 powi (- 1021) / 2 powi (- 1074)"
    using assms(2) by (simp add: divide_strict_right_mono)
  also have "2 powi (- 1021) / 2 powi (- 1074) = (2::real) ^ 53"
    by (simp add: power_int_diff [symmetric])
  finally have "x / 2 powi (- 1074) \<le> of_int (2 ^ 53)" by simp
  then have "\<lceil>x / 2 powi (- 1074)\<rceil> \<le> 2 ^ 53" by (simp only: ceiling_le_iff)
  with rhe_bounds(2) [of "x / 2 powi (- 1074)"] have "n \<le> 2 ^ 53"
    unfolding assms(3) by (rule order_trans)
  then have "(of_int n :: real) \<le> 2 ^ 53" by simp
  then have "of_int n * 2 powi (- 1074) \<le> (2::real) ^ 53 * 2 powi (- 1074)"
    by (intro mult_right_mono) simp_all
  also have "(2::real) ^ 53 * 2 powi (- 1074) = 2 powi (- 1021)"
    by (simp add: power_int_add [symmetric])
  also have "\<dots> < huge" unfolding huge_def
    using powi2_less [of "- 1021" 1024] by simp
  finally have "of_int n * 2 powi (- 1074) < huge" .
  then have "r < huge" unfolding assms(4) .
  with round64_nonneg [OF assms(1)] assms(3,4) show ?thesis by (simp add: E)
qed

lemma round64_eval_inf:
  assumes "huge \<le> x"
  shows "round64 x = PInf"
proof -
  have h: "huge = 2 ^ 53 * 2 powi 971" unfolding huge_def
    by (simp add: power_int_add [symmetric])
  have "2 powi 1023 \<le> huge" unfolding huge_def using powi2_mono [of 1023 1024] by simp
  with assms have E: "exponent x = 1023" by (intro exponent_big) simp
  have x0: "0 \<le> x" using assms huge_pos by linarith
  have "of_int (2 ^ 53) \<le> x / 2 powi 971"
    using assms unfolding h by (simp add: field_simps)
  then have "2 ^ 53 \<le> \<lfloor>x / 2 powi 971\<rfloor>" by (simp only: le_floor_iff)
  with rhe_bounds(1) [of "x / 2 powi 971"] have "2 ^ 53 \<le> round_half_even (x / 2 powi 971)"
    by (rule order_trans [rotated])
  then have "(2::real) ^ 53 \<le> of_int (round_half_even (x / 2 powi 971))" by simp
  then have "(2::real) ^ 53 * 2 powi 971 \<le> of_int (round_half_even (x / 2 powi 971)) * 2 powi 971"
    by (intro mult_right_mono) simp_all
  then have "huge \<le> of_int (round_half_even (x / 2 powi 971)) * 2 powi 971"
    by (simp only: h)
  with round64_nonneg [OF x0] x0 show ?thesis by (simp add: E)
qed

lemma round64_eval_neg:
  assumes "round64 (- x) = Finite r"
  shows "round64 x = Finite (- r)"
  using assms unfolding round64_minus by (cases "round64 x") simp_all

lemma round64_eval_zero: "x = 0 \<Longrightarrow> round64 x = Finite 0"
  by simp

lemma is_float_int:
  assumes "\<bar>m\<bar> \<le> 2 ^ 53"
  shows "is_float (of_int m)"
proof -
  have "\<bar>of_int m :: real\<bar> = of_int \<bar>m\<bar>" by simp
  also have "\<dots> \<le> of_int (2 ^ 53)" using assms by (simp only: of_int_le_iff)
  also have "\<dots> < huge" unfolding huge_def of_int_power of_int_numeral
    by (rule power_strict_increasing) simp_all
  finally have "\<bar>of_int m * 2 powi 0\<bar> < huge" by simp
  from round64_exact [OF assms _ this] show ?thesis by (simp add: is_float_def)
qed

lemma is_float_numeral: "numeral k \<le> (2 ^ 53 :: int) \<Longrightarrow> is_float (numeral k)"
  using is_float_int [of "numeral k"] by (simp del: of_int_numeral) simp

lemma is_float_neg_numeral: "numeral k \<le> (2 ^ 53 :: int) \<Longrightarrow> is_float (- numeral k)"
  by (simp add: is_float_minus is_float_numeral)

section \<open>Auxiliary facts about the scalar Kalman filter\<close>

lemmas eval_simps = session_def SimpleKalmanFilter_init_def update_def kalman_gain_def
  predicted_error_def fdiv_def Let_def

lemma round64_valid: "valid (round64 x)"
  by (cases "round64 x") (simp_all add: round64_idem)

lemma is_float_1 [simp]: "is_float 1"
  unfolding is_float_def using round64_exact [of 1 0] by (simp add: huge_def)

lemma nn_cases:
  assumes "valid a" "fle (Finite 0) a"
  shows "a = PInf \<or> (\<exists>x. a = Finite x \<and> is_float x \<and> 0 \<le> x)"
  using assms by (cases a) simp_all

lemma fadd_nn:
  assumes "valid a" "fle (Finite 0) a" "valid b" "fle (Finite 0) b"
  shows "valid (fadd a b) \<and> fle (Finite 0) (fadd a b) \<and> fle a (fadd a b) \<and> fle b (fadd a b)"
proof -
  from nn_cases [OF assms(1,2)] nn_cases [OF assms(3,4)]
  consider "a = PInf" | "b = PInf" | x y where "a = Finite x" "is_float x" "0 \<le> x"
    "b = Finite y" "is_float y" "0 \<le> y"
    by blast
  then show ?thesis
  proof cases
    case 1
    with assms show ?thesis by (cases b) simp_all
  next
    case 2
    with assms show ?thesis by (cases a) simp_all
  next
    case 3
    have "fle (Finite x) (round64 (x + y))" using 3 by (intro round64_ge) simp_all
    moreover have "fle (Finite y) (round64 (x + y))" using 3 by (intro round64_ge) simp_all
    moreover have "fle (Finite 0) (round64 (x + y))" using 3 by (intro round64_ge) simp_all
    ultimately show ?thesis using 3 by (simp add: round64_valid)
  qed
qed

lemma fquot_unit:
  assumes "is_float x" "0 \<le> x" "valid b" "fle (Finite x) b" "b \<noteq> Finite 0"
  shows "\<exists>k. fquot (Finite x) b = Finite k \<and> is_float k \<and> 0 \<le> k \<and> k \<le> 1"
proof (cases b)
  case (Finite y)
  with assms have y: "x \<le> y" "0 < y" by auto
  then have "0 \<le> x / y" "x / y \<le> 1" using assms(2) by simp_all
  from round64_le_pos [OF is_float_1 this] obtain z where
    z: "round64 (x / y) = Finite z" "0 \<le> z" "z \<le> 1" by blast
  with round64_idem [OF z(1)] show ?thesis by (simp add: Finite)
next
  case PInf
  then show ?thesis by simp
next
  case NInf
  with assms show ?thesis by simp
next
  case NaN
  with assms show ?thesis by simp
qed

lemma one_minus_unit:
  assumes "0 \<le> k" "k \<le> 1"
  shows "\<exists>j. fsub (Finite 1) (Finite k) = Finite j \<and> is_float j \<and> 0 \<le> j \<and> j \<le> 1"
proof -
  from assms have "0 \<le> 1 - k" "1 - k \<le> 1" by simp_all
  from round64_le_pos [OF is_float_1 this] obtain z where
    z: "round64 (1 - k) = Finite z" "0 \<le> z" "z \<le> 1" by blast
  with round64_idem [OF z(1)] show ?thesis by (simp add: fsub_def)
qed

lemma fmul_unit:
  assumes "0 \<le> j" "j \<le> 1" "is_float x" "0 \<le> x"
  shows "\<exists>z. fmul (Finite j) (Finite x) = Finite z \<and> is_float z \<and> 0 \<le> z \<and> z \<le> x"
proof -
  from assms have "0 \<le> j * x" "j * x \<le> x" by (simp_all add: mult_left_le_one_le)
  from round64_le_pos [OF assms(3) this] obtain z where
    z: "round64 (j * x) = Finite z" "0 \<le> z" "z \<le> x" by blast
  with round64_idem [OF z(1)] show ?thesis by simp
qed

lemma update_fresh:
  "\<not> initialized s \<Longrightarrow> update s m = Inr (s\<lparr>estimate := m, initialized := True\<rparr>, m)"
  by (simp add: update_def Let_def)

lemma update_zero_divisor:
  "initialized s \<Longrightarrow> fadd (predicted_error s) (measurement_noise s) = Finite 0 \<Longrightarrow>
     update s m = Inl ZeroDivisionError"
  by (simp add: update_def kalman_gain_def fdiv_def Let_def)

lemma update_running:
  "initialized s \<Longrightarrow> fadd (predicted_error s) (measurement_noise s) \<noteq> Finite 0 \<Longrightarrow>
     update s m =
       Inr (s\<lparr>estimate := fadd (estimate s)
                 (fmul (fquot (predicted_error s)
                          (fadd (predicted_error s) (measurement_noise s)))
                       (fsub m (estimate s))),
               error_estimate :=
                 fmul (fsub (Finite 1)
                         (fquot (predicted_error s)
                            (fadd (predicted_error s) (measurement_noise s))))
                      (predicted_error s)\<rparr>,
            fadd (estimate s)
              (fmul (fquot (predicted_error s)
                       (fadd (predicted_error s) (measurement_noise s)))
                    (fsub m (estimate s))))"
  by (simp add: update_def kalman_gain_def fdiv_def Let_def)

lemma update_keeps_parameters:
  assumes "update s m = Inr (s', y)"
  shows "process_noise s' = process_noise s \<and> measurement_noise s' = measurement_noise s \<and>
         initialized s' \<and> y = estimate s'"
proof (cases "initialized s")
  case False
  with assms show ?thesis by (auto simp: update_fresh)
next
  case True
  show ?thesis
  proof (cases "fadd (predicted_error s) (measurement_noise s) = Finite 0")
    case True
    with \<open>initialized s\<close> assms show ?thesis by (simp add: update_zero_divisor)
  next
    case False
    with \<open>initialized s\<close> assms show ?thesis by (auto simp: update_running)
  qed
qed

lemma update_error_bounds:
  assumes init: "initialized s"
    and Q: "valid (process_noise s)" "fle (Finite 0) (process_noise s)"
    and R: "valid (measurement_noise s)" "fle (Finite 0) (measurement_noise s)"
    and p: "error_estimate s = Finite a" "is_float a" "0 \<le> a"
    and pe: "predicted_error s = Finite b"
    and upd: "update s m = Inr (s', y)"
  shows "\<exists>k a'. kalman_gain s = Inr (Finite k) \<and> 0 \<le> k \<and> k \<le> 1 \<and>
           error_estimate s' = Finite a' \<and> is_float a' \<and> 0 \<le> a' \<and> a' \<le> b"
proof -
  have vp: "valid (error_estimate s)" "fle (Finite 0) (error_estimate s)" using p by simp_all
  from fadd_nn [OF vp Q] pe have b: "is_float b" "0 \<le> b"
    by (simp_all add: predicted_error_def)
  have vb: "valid (Finite b)" "fle (Finite 0) (Finite b)" using b by simp_all
  define d where "d = fadd (predicted_error s) (measurement_noise s)"
  from fadd_nn [OF vb R] have d: "valid d" "fle (Finite b) d"
    by (simp_all add: d_def pe)
  have nz: "d \<noteq> Finite 0"
    using init upd unfolding d_def by (auto simp: update_zero_divisor)
  from fquot_unit [OF b d nz] obtain k where
    k: "fquot (Finite b) d = Finite k" "0 \<le> k" "k \<le> 1" by blast
  from one_minus_unit [OF k(2,3)] obtain j where
    j: "fsub (Finite 1) (Finite k) = Finite j" "0 \<le> j" "j \<le> 1" by blast
  from fmul_unit [OF j(2,3) b] obtain a' where
    a': "fmul (Finite j) (Finite b) = Finite a'" "is_float a'" "0 \<le> a'" "a' \<le> b" by blast
  have K: "kalman_gain s = Inr (Finite k)"
    using nz k(1) by (simp add: kalman_gain_def fdiv_def d_def pe)
  have "error_estimate s' = Finite a'"
    using upd init nz k(1) j(1) a'(1) unfolding d_def
    by (auto simp: update_running pe)
  with K k a' show ?thesis by blast
qed

lemma flt_fle_trans: "flt a b \<Longrightarrow> fle b c \<Longrightarrow> flt a c"
  by (cases a; cases b; cases c) simp_all

lemma flt_imp_fle: "flt a b \<Longrightarrow> fle a b"
  by (cases a; cases b) simp_all

lemma update_error_ok:
  assumes Q: "valid (process_noise s)" "fle (Finite 0) (process_noise s)"
    and R: "valid (measurement_noise s)" "fle (Finite 0) (measurement_noise s)"
    and p: "error_estimate s = NaN \<or> (\<exists>a. error_estimate s = Finite a \<and> is_float a \<and> 0 \<le> a)"
    and upd: "update s m = Inr (s', y)"
  shows "error_estimate s' = NaN \<or> (\<exists>a. error_estimate s' = Finite a \<and> is_float a \<and> 0 \<le> a)"
proof (cases "initialized s")
  case False
  with upd p show ?thesis by (auto simp: update_fresh)
next
  case True
  define d where "d = fadd (predicted_error s) (measurement_noise s)"
  have nz: "d \<noteq> Finite 0"
    using True upd unfolding d_def by (auto simp: update_zero_divisor)
  have s': "error_estimate s' = fmul (fsub (Finite 1) (fquot (predicted_error s) d)) (predicted_error s)"
    using True nz upd unfolding d_def by (auto simp: update_running)
  from p show ?thesis
  proof
    assume "error_estimate s = NaN"
    then have "predicted_error s = NaN" by (simp add: predicted_error_def)
    then show ?thesis by (simp add: s' fsub_def)
  next
    assume "\<exists>a. error_estimate s = Finite a \<and> is_float a \<and> 0 \<le> a"
    then obtain a where a: "error_estimate s = Finite a" "is_float a" "0 \<le> a" by blast
    then have vp: "valid (error_estimate s)" "fle (Finite 0) (error_estimate s)" by simp_all
    from fadd_nn [OF vp Q] have pe: "valid (predicted_error s)" "fle (Finite 0) (predicted_error s)"
      by (simp_all add: predicted_error_def)
    from nn_cases [OF pe] show ?thesis
    proof
      assume inf: "predicted_error s = PInf"
      from nn_cases [OF R] have "d = PInf"
        unfolding d_def inf by auto
      then show ?thesis by (simp add: s' inf fsub_def)
    next
      assume "\<exists>x. predicted_error s = Finite x \<and> is_float x \<and> 0 \<le> x"
      then obtain b where b: "predicted_error s = Finite b" by blast
      from update_error_bounds [OF True Q R a b upd] show ?thesis by blast
    qed
  qed
qed

lemma feed_invariant:
  assumes "feed s ms = Inr (s', ys)"
    and "valid (process_noise s)" "fle (Finite 0) (process_noise s)"
    and "valid (measurement_noise s)" "fle (Finite 0) (measurement_noise s)"
    and "error_estimate s = NaN \<or> (\<exists>a. error_estimate s = Finite a \<and> is_float a \<and> 0 \<le> a)"
  shows "process_noise s' = process_noise s \<and> measurement_noise s' = measurement_noise s \<and>
         (error_estimate s' = NaN \<or> (\<exists>a. error_estimate s' = Finite a \<and> is_float a \<and> 0 \<le> a)) \<and>
         length ys = length ms"
  using assms
proof (induction ms arbitrary: s ys)
  case Nil
  then show ?case by simp
next
  case (Cons m ms)
  from Cons.prems(1) obtain s1 y ys1 where
    u: "update s m = Inr (s1, y)" and f: "feed s1 ms = Inr (s', ys1)" and ys: "ys = y # ys1"
    by (auto split: sum.splits)
  have k: "process_noise s1 = process_noise s" "measurement_noise s1 = measurement_noise s"
    using update_keeps_parameters [OF u] by simp_all
  note e = update_error_ok [OF Cons.prems(2-6) u]
  from Cons.IH [OF f _ _ _ _ e] k Cons.prems(2-5) ys show ?case by simp
qed

lemma feed_initialized:
  assumes "feed s ms = Inr (s', ys)"
  shows "if ms = [] then s' = s else initialized s'"
  using assms
proof (induction ms arbitrary: s ys)
  case Nil
  then show ?case by simp
next
  case (Cons m ms)
  from Cons.prems obtain s1 y ys1 where
    u: "update s m = Inr (s1, y)" and f: "feed s1 ms = Inr (s', ys1)"
    by (auto split: sum.splits)
  have "initialized s1" using update_keeps_parameters [OF u] by simp
  with Cons.IH [OF f] show ?case by (cases ms) auto
qed

lemma divisor_positive:
  assumes Q: "valid (process_noise s)" "fle (Finite 0) (process_noise s)"
    and R: "valid (measurement_noise s)" "flt (Finite 0) (measurement_noise s)"
    and p: "error_estimate s = NaN \<or> (\<exists>a. error_estimate s = Finite a \<and> is_float a \<and> 0 \<le> a)"
  shows "fadd (predicted_error s) (measurement_noise s) = NaN \<or>
         flt (Finite 0) (fadd (predicted_error s) (measurement_noise s))"
  using p
proof
  assume "error_estimate s = NaN"
  then show ?thesis by (simp add: predicted_error_def)
next
  assume "\<exists>a. error_estimate s = Finite a \<and> is_float a \<and> 0 \<le> a"
  then have vp: "valid (error_estimate s)" "fle (Finite 0) (error_estimate s)" by auto
  from fadd_nn [OF vp Q] have pe: "valid (predicted_error s)" "fle (Finite 0) (predicted_error s)"
    by (simp_all add: predicted_error_def)
  from fadd_nn [OF pe R(1) flt_imp_fle [OF R(2)]]
  have "fle (measurement_noise s) (fadd (predicted_error s) (measurement_noise s))" by simp
  with R(2) show ?thesis by (blast intro: flt_fle_trans)
qed

lemma update_total:
  assumes Q: "valid (process_noise s)" "fle (Finite 0) (process_noise s)"
    and R: "valid (measurement_noise s)" "flt (Finite 0) (measurement_noise s)"
    and p: "error_estimate s = NaN \<or> (\<exists>a. error_estimate s = Finite a \<and> is_float a \<and> 0 \<le> a)"
  shows "\<exists>s' y. update s m = Inr (s', y)"
proof (cases "initialized s")
  case False
  then show ?thesis by (simp add: update_fresh)
next
  case True
  from divisor_positive [OF assms]
  have "fadd (predicted_error s) (measurement_noise s) \<noteq> Finite 0" by auto
  with True show ?thesis by (simp add: update_running)
qed

lemma feed_total:
  assumes Q: "valid (process_noise s)" "fle (Finite 0) (process_noise s)"
    and R: "valid (measurement_noise s)" "flt (Finite 0) (measurement_noise s)"
    and p: "error_estimate s = NaN \<or> (\<exists>a. error_estimate s = Finite a \<and> is_float a \<and> 0 \<le> a)"
  shows "\<exists>s' ys. feed s ms = Inr (s', ys)"
  using assms
proof (induction ms arbitrary: s)
  case Nil
  show ?case by simp
next
  case (Cons m ms)
  from update_total [OF Cons.prems] obtain s1 y where u: "update s m = Inr (s1, y)"
    by blast
  have k: "process_noise s1 = process_noise s" "measurement_noise s1 = measurement_noise s"
    using update_keeps_parameters [OF u] by simp_all
  note e = update_error_ok [OF Cons.prems(1,2,3) flt_imp_fle [OF Cons.prems(4)] Cons.prems(5) u]
  from Cons.IH [of s1] k e Cons.prems(1-4) obtain s' ys where "feed s1 ms = Inr (s', ys)"
    by auto
  with u show ?case by simp
qed

lemma update_variance_part:
  assumes "variance_part s = variance_part t"
  shows "map_sum id (\<lambda>r. variance_part (fst r)) (update s m) =
         map_sum id (\<lambda>r. variance_part (fst r)) (update t m')"
proof -
  from assms have eq: "process_noise s = process_noise t"
    "measurement_noise s = measurement_noise t" "error_estimate s = error_estimate t"
    "initialized s = initialized t"
    by (simp_all add: variance_part_def)
  then have pe: "predicted_error s = predicted_error t"
    by (simp add: predicted_error_def)
  show ?thesis
  proof (cases "initialized s")
    case False
    with eq show ?thesis by (simp add: update_fresh variance_part_def)
  next
    case True
    then have it: "initialized t" using eq by simp
    show ?thesis
    proof (cases "fadd (predicted_error s) (measurement_noise s) = Finite 0")
      case True
      with \<open>initialized s\<close> it pe eq show ?thesis by (simp add: update_zero_divisor)
    next
      case False
      with \<open>initialized s\<close> it pe eq show ?thesis
        by (simp add: update_running variance_part_def)
    qed
  qed
qed

lemma feed_variance_part:
  assumes "length ms = length ms'" "variance_part s = variance_part t"
  shows "map_sum id (\<lambda>r. variance_part (fst r)) (feed s ms) =
         map_sum id (\<lambda>r. variance_part (fst r)) (feed t ms')"
  using assms
proof (induction ms ms' arbitrary: s t rule: list_induct2)
  case Nil
  then show ?case by simp
next
  case (Cons m ms m' ms')
  note step = update_variance_part [OF Cons.prems, of m m']
  show ?case
  proof (cases "update s m")
    case (Inl e)
    with step show ?thesis by (cases "update t m'") auto
  next
    case (Inr r)
    then obtain s1 y where u: "update s m = Inr (s1, y)" by (cases r) auto
    with step obtain t1 y' where v: "update t m' = Inr (t1, y')"
      and vp: "variance_part s1 = variance_part t1"
      by (cases "update t m'") auto
    from Cons.IH [OF vp] u v show ?thesis
      by (cases "feed s1 ms"; cases "feed t1 ms'") auto
  qed
qed











lemma is_float_half [simp]: "is_float (1 / 2)"
  unfolding is_float_def using round64_exact [of 1 "- 1"] by (simp add: huge_def)

lemma is_float_double:
  assumes "is_float y" "0 \<le> y" "2 * y < huge"
  shows "is_float (2 * y)"
proof -
  from is_float_form_pos [OF assms(1,2)] obtain m e where
    m: "0 \<le> m" "m \<le> 2 ^ 53" and e: "- 1074 \<le> e" and y: "y = of_int m * 2 powi e" by blast
  have eq: "2 * y = of_int m * 2 powi (e + 1)" by (simp add: y power_int_add)
  have "round64 (of_int m * 2 powi (e + 1)) = Finite (of_int m * 2 powi (e + 1))"
    using m e assms(2,3) unfolding eq by (intro round64_exact) simp_all
  then show ?thesis unfolding is_float_def eq .
qed

lemma update_error_bounded:
  assumes init: "initialized s"
    and Q: "process_noise s = Finite q" "is_float q" "0 \<le> q" "q \<le> B"
    and R: "measurement_noise s = Finite r" "is_float r" "0 \<le> r" "2 * r \<le> B"
    and p: "error_estimate s = Finite a" "is_float a" "0 \<le> a" "a \<le> B"
    and B: "is_float B" "is_float (2 * B)" "4 * B < huge"
    and upd: "update s m = Inr (s', y)"
  shows "\<exists>a'. error_estimate s' = Finite a' \<and> is_float a' \<and> 0 \<le> a' \<and> a' \<le> B"
proof -
  have "0 \<le> a + q" "a + q \<le> 2 * B" using Q p by simp_all
  from round64_le_pos [OF B(2) this] obtain b where
    b: "round64 (a + q) = Finite b" "0 \<le> b" "b \<le> 2 * B" by blast
  have fb: "is_float b" using round64_idem [OF b(1)] .
  have pe: "predicted_error s = Finite b" by (simp add: predicted_error_def p Q b)
  have vQ: "valid (process_noise s)" "fle (Finite 0) (process_noise s)" using Q by simp_all
  have vR: "valid (measurement_noise s)" "fle (Finite 0) (measurement_noise s)" using R by simp_all
  from update_error_bounds [OF init vQ vR p(1-3) pe upd] obtain k a' where
    k: "kalman_gain s = Inr (Finite k)" "0 \<le> k" "k \<le> 1" and
    a': "error_estimate s' = Finite a'" "is_float a'" "0 \<le> a'" "a' \<le> b" by blast
  show ?thesis
  proof (cases "b \<le> B")
    case True
    with a' show ?thesis by auto
  next
    case False
    then have bB: "B < b" by simp
    have b2: "is_float (2 * b)" using fb b(2,3) B(3) by (intro is_float_double) simp_all
    have "0 \<le> b + r" "b + r \<le> 2 * b" using b(2) R bB by simp_all
    from round64_le_pos [OF b2 this] obtain d where
      d: "round64 (b + r) = Finite d" "0 \<le> d" "d \<le> 2 * b" by blast
    have "fle (Finite b) (round64 (b + r))" using fb R(3) by (intro round64_ge) simp_all
    with d have bd: "b \<le> d" by simp
    have b0: "0 < b" using bB p R by simp
    with bd have d0: "0 < d" by simp
    have nz: "fadd (predicted_error s) (measurement_noise s) \<noteq> Finite 0"
      using d d0 by (simp add: pe R)
    have half: "1 / 2 \<le> b / d" using d(3) d0 by (simp add: field_simps)
    have ge: "fle (Finite (1 / 2)) (round64 (b / d))"
      using half by (intro round64_ge) simp_all
    have K: "kalman_gain s = Inr (round64 (b / d))"
      using nz d by (simp add: kalman_gain_def fdiv_def pe R)
    have kq: "round64 (b / d) = Finite k" using K k(1) by simp
    have khalf: "1 / 2 \<le> k" using ge unfolding kq by simp
    have "0 \<le> 1 - k" "1 - k \<le> 1 / 2" using k khalf by simp_all
    from round64_le_pos [OF is_float_half this] obtain j where
      j: "round64 (1 - k) = Finite j" "0 \<le> j" "j \<le> 1 / 2" by blast
    have "j * b \<le> (1 / 2) * b" using j(3) b(2) by (intro mult_right_mono) simp_all
    then have "0 \<le> j * b" "j * b \<le> B" using j(2) b(2,3) by simp_all
    from round64_le_pos [OF B(1) this] obtain z where
      z: "round64 (j * b) = Finite z" "0 \<le> z" "z \<le> B" by blast
    have "error_estimate s' = Finite z"
      using upd init nz by (auto simp: update_running pe R d kq fsub_def j z)
    with z round64_idem [OF z(1)] show ?thesis by auto
  qed
qed

lemma update_error_bounded':
  assumes Q: "process_noise s = Finite q" "is_float q" "0 \<le> q" "q \<le> B"
    and R: "measurement_noise s = Finite r" "is_float r" "0 \<le> r" "2 * r \<le> B"
    and p: "error_estimate s = Finite a" "is_float a" "0 \<le> a" "a \<le> B"
    and B: "is_float B" "is_float (2 * B)" "4 * B < huge"
    and upd: "update s m = Inr (s', y)"
  shows "\<exists>a'. error_estimate s' = Finite a' \<and> is_float a' \<and> 0 \<le> a' \<and> a' \<le> B"
proof (cases "initialized s")
  case True
  from update_error_bounded [OF True assms] show ?thesis .
next
  case False
  with upd p show ?thesis by (auto simp: update_fresh)
qed

lemma feed_error_bounded:
  assumes "feed s ms = Inr (s', ys)"
    and Q: "process_noise s = Finite q" "is_float q" "0 \<le> q" "q \<le> B"
    and R: "measurement_noise s = Finite r" "is_float r" "0 \<le> r" "2 * r \<le> B"
    and p: "\<exists>a. error_estimate s = Finite a \<and> is_float a \<and> 0 \<le> a \<and> a \<le> B"
    and B: "is_float B" "is_float (2 * B)" "4 * B < huge"
  shows "\<exists>a'. error_estimate s' = Finite a' \<and> is_float a' \<and> 0 \<le> a' \<and> a' \<le> B"
  using assms(1) Q(1) R(1) p
proof (induction ms arbitrary: s ys)
  case Nil
  then show ?case by simp
next
  case (Cons m ms)
  from Cons.prems(1) obtain s1 y ys1 where
    u: "update s m = Inr (s1, y)" and f: "feed s1 ms = Inr (s', ys1)"
    by (auto split: sum.splits)
  from Cons.prems(4) obtain a where
    a: "error_estimate s = Finite a" "is_float a" "0 \<le> a" "a \<le> B" by blast
  have k: "process_noise s1 = Finite q" "measurement_noise s1 = Finite r"
    using update_keeps_parameters [OF u] Cons.prems(2,3) by simp_all
  note e = update_error_bounded' [OF Cons.prems(2) Q(2-4) Cons.prems(3) R(2-4) a B u]
  from Cons.IH [OF f k e] show ?case .
qed

lemma is_float_pow2:
  assumes "n \<le> 1023"
  shows "is_float (2 ^ n)"
proof -
  have "(2::real) ^ n < 2 ^ 1024" using assms by (intro power_strict_increasing) simp_all
  then have "\<bar>of_int 1 * 2 powi (int n)\<bar> < huge" by (simp add: huge_def)
  from round64_exact [of 1 "int n", OF _ _ this] show ?thesis by (simp add: is_float_def)
qed

lemma divisor_positive_finite:
  assumes Q: "valid (process_noise s)" "fle (Finite 0) (process_noise s)"
    and R: "valid (measurement_noise s)" "flt (Finite 0) (measurement_noise s)"
    and p: "error_estimate s = Finite a" "is_float a" "0 \<le> a"
  shows "flt (Finite 0) (fadd (predicted_error s) (measurement_noise s))"
proof -
  have "error_estimate s \<noteq> NaN" using p by simp
  moreover have "fadd (predicted_error s) (measurement_noise s) \<noteq> NaN \<or>
      flt (Finite 0) (fadd (predicted_error s) (measurement_noise s))"
  proof -
    have vp: "valid (error_estimate s)" "fle (Finite 0) (error_estimate s)" using p by simp_all
    from fadd_nn [OF vp Q] have pe: "valid (predicted_error s)" "fle (Finite 0) (predicted_error s)"
      by (simp_all add: predicted_error_def)
    from fadd_nn [OF pe R(1) flt_imp_fle [OF R(2)]]
    have "fle (measurement_noise s) (fadd (predicted_error s) (measurement_noise s))" by simp
    with R(2) show ?thesis by (blast intro: flt_fle_trans)
  qed
  ultimately show ?thesis
    using divisor_positive [OF Q R] p by auto
qed

lemma session_feed:
  "session pn mn ms =
     feed \<lparr>process_noise = pn, measurement_noise = mn,
           estimate = Finite 0, error_estimate = Finite 1, initialized = False\<rparr> ms"
  by (simp add: session_def SimpleKalmanFilter_init_def)

section \<open>Auxiliary facts about the moving averages\<close>












section \<open>The claims about \<^verbatim>\<open>SimpleKalmanFilter.update\<close>\<close>

text \<open>
  C6. On a filter on which \<^verbatim>\<open>update\<close> has never been called (the object as the
  constructor leaves it), the first call \<^verbatim>\<open>update(m)\<close> returns \<open>m\<close> and leaves
  estimate \<open>m\<close>, error estimate \<open>1.0\<close> and the initialized flag set; the parameters
  are untouched and no gain is computed, so the call cannot raise.
\<close>

theorem first_update_initializes:
  "\<exists>self0. SimpleKalmanFilter_init pn mn = Inr self0 \<and>
     update self0 m =
       Inr (\<lparr>process_noise = pn, measurement_noise = mn,
             estimate = m, error_estimate = Finite 1, initialized = True\<rparr>, m)"
  by (simp add: SimpleKalmanFilter_init_def update_def)

text \<open>
  C1 as stated fails where the divisor is zero. With both noise parameters \<open>0.0\<close> the
  second update drives the error estimate to \<open>0.0\<close>; the third then divides
  \<open>0.0\<close> by \<open>0.0\<close> and raises instead of returning an estimate. The divisor is
  the rounded sum: with process noise \<open>0.1\<close> and measurement noise \<open>-1.1\<close> (the
  floats nearest to them) the sum \<open>(1.0 + 0.1) + (-1.1)\<close> is \<open>0.0\<close>, and the second
  update raises although the exact sum is not zero.
\<close>

theorem update_raises_on_zero_divisor:
  "session (Finite 0) (Finite 0) [Finite 1, Finite 2] =
     Inr (\<lparr>process_noise = Finite 0, measurement_noise = Finite 0,
           estimate = Finite 2,
           error_estimate = Finite 0,
           initialized = True\<rparr>, [Finite 1, Finite 2]) \<and>
   update \<lparr>process_noise = Finite 0, measurement_noise = Finite 0,
           estimate = Finite 2,
           error_estimate = Finite 0,
           initialized = True\<rparr> (Finite 3) =
     Inl ZeroDivisionError \<and>
   session (Finite (3602879701896397 / 36028797018963968)) (Finite (- (2476979795053773 / 2251799813685248))) [Finite 1, Finite 2] =
     Inl ZeroDivisionError"
proof -
  have o1: "fadd (Finite 1) (Finite 0) = Finite 1"
    unfolding fadd.simps by (rule round64_eval [where E = "0" and n = "4503599627370496"]) (simp_all add: round_half_even_def huge_def power_divide)
  have o2: "fquot (Finite 1) (Finite 1) = Finite 1"
    unfolding fquot.simps by (rule round64_eval [where E = "0" and n = "4503599627370496"]) (simp_all add: round_half_even_def huge_def power_divide)
  have o3: "fsub (Finite 2) (Finite 1) = Finite 1"
    unfolding fsub_def fneg.simps fadd.simps by (rule round64_eval [where E = "0" and n = "4503599627370496"]) (simp_all add: round_half_even_def huge_def power_divide)
  have o4: "fmul (Finite 1) (Finite 1) = Finite 1"
    unfolding fmul.simps by (rule round64_eval [where E = "0" and n = "4503599627370496"]) (simp_all add: round_half_even_def huge_def power_divide)
  have o5: "fadd (Finite 1) (Finite 1) = Finite 2"
    unfolding fadd.simps by (rule round64_eval [where E = "1" and n = "4503599627370496"]) (simp_all add: round_half_even_def huge_def power_divide)
  have o6: "fsub (Finite 1) (Finite 1) = Finite 0"
    unfolding fsub_def fneg.simps fadd.simps by (rule round64_eval_zero) simp
  have o7: "fmul (Finite 0) (Finite 1) = Finite 0"
    unfolding fmul.simps by (rule round64_eval_zero) simp
  have o8: "fadd (Finite 0) (Finite 0) = Finite 0"
    unfolding fadd.simps by (rule round64_eval_zero) simp
  have o9: "fadd (Finite 1) (Finite (3602879701896397 / 36028797018963968)) = Finite (2476979795053773 / 2251799813685248)"
    unfolding fadd.simps by (rule round64_eval [where E = "0" and n = "4953959590107546"]) (simp_all add: round_half_even_def huge_def power_divide)
  have o10: "fadd (Finite (2476979795053773 / 2251799813685248)) (Finite (- (2476979795053773 / 2251799813685248))) = Finite 0"
    unfolding fadd.simps by (rule round64_eval_zero) simp
  show ?thesis
    by (simp add: eval_simps inf_of_sign_def o1 o2 o3 o4 o5 o6 o7 o8 o9 o10 del:
    fadd.simps(1) fmul.simps(1) fquot.simps(1))
qed

text \<open>
  C1, amended. For every initialized filter with estimate \<open>e\<close>, error estimate \<open>p\<close>
  and parameters \<open>Q\<close>, \<open>R\<close>, in float arithmetic: \<^verbatim>\<open>update(m)\<close> computes the
  predicted error \<open>p + Q\<close> and the divisor \<open>(p + Q) + R\<close>; when the divisor is not
  zero it computes the gain \<open>K = (p + Q) / ((p + Q) + R)\<close>, sets the estimate to
  \<open>e + K * (m - e)\<close> and the error estimate to \<open>(1 - K) * (p + Q)\<close>, and returns
  the new estimate; when the divisor is zero it raises \<^verbatim>\<open>ZeroDivisionError\<close>.
\<close>

theorem update_predict_correct:
  "update \<lparr>process_noise = Q, measurement_noise = R,
           estimate = e, error_estimate = p, initialized = True\<rparr> m =
     (if fadd (fadd p Q) R = Finite 0 then Inl ZeroDivisionError
      else Inr (\<lparr>process_noise = Q, measurement_noise = R,
                 estimate = fadd e (fmul (fquot (fadd p Q) (fadd (fadd p Q) R)) (fsub m e)),
                 error_estimate =
                   fmul (fsub (Finite 1) (fquot (fadd p Q) (fadd (fadd p Q) R))) (fadd p Q),
                 initialized = True\<rparr>,
                fadd e (fmul (fquot (fadd p Q) (fadd (fadd p Q) R)) (fsub m e))))"
  by (simp add: eval_simps)

theorem update_predict_correct_witness:
  "update \<lparr>process_noise = Finite 1, measurement_noise = Finite 10,
           estimate = Finite 0, error_estimate = Finite 1, initialized = True\<rparr> (Finite 12) =
     Inr (\<lparr>process_noise = Finite 1, measurement_noise = Finite 10,
           estimate = Finite 2,
           error_estimate = Finite (7505999378950827 / 4503599627370496),
           initialized = True\<rparr>, Finite 2)"
proof -
  have o1: "fadd (Finite 1) (Finite 1) = Finite 2"
    unfolding fadd.simps by (rule round64_eval [where E = "1" and n = "4503599627370496"]) (simp_all add: round_half_even_def huge_def power_divide)
  have o2: "fadd (Finite 2) (Finite 10) = Finite 12"
    unfolding fadd.simps by (rule round64_eval [where E = "3" and n = "6755399441055744"]) (simp_all add: round_half_even_def huge_def power_divide)
  have o3: "fquot (Finite 2) (Finite 12) = Finite (6004799503160661 / 36028797018963968)"
    unfolding fquot.simps by (rule round64_eval [where E = "- 3" and n = "6004799503160661"]) (simp_all add: round_half_even_def huge_def power_divide)
  have o4: "fsub (Finite 12) (Finite 0) = Finite 12"
    unfolding fsub_def fneg.simps fadd.simps by (rule round64_eval [where E = "3" and n = "6755399441055744"]) (simp_all add: round_half_even_def huge_def power_divide)
  have o5: "fmul (Finite (6004799503160661 / 36028797018963968)) (Finite 12) = Finite 2"
    unfolding fmul.simps by (rule round64_eval [where E = "0" and n = "9007199254740992"]) (simp_all add: round_half_even_def huge_def power_divide)
  have o6: "fadd (Finite 0) (Finite 2) = Finite 2"
    unfolding fadd.simps by (rule round64_eval [where E = "1" and n = "4503599627370496"]) (simp_all add: round_half_even_def huge_def power_divide)
  have o7: "fsub (Finite 1) (Finite (6004799503160661 / 36028797018963968)) = Finite (7505999378950827 / 9007199254740992)"
    unfolding fsub_def fneg.simps fadd.simps by (rule round64_eval [where E = "- 1" and n = "7505999378950827"]) (simp_all add: round_half_even_def huge_def power_divide)
  have o8: "fmul (Finite (7505999378950827 / 9007199254740992)) (Finite 2) = Finite (7505999378950827 / 4503599627370496)"
    unfolding fmul.simps by (rule round64_eval [where E = "0" and n = "7505999378950827"]) (simp_all add: round_half_even_def huge_def power_divide)
  show ?thesis
    using update_predict_correct [of "Finite 1" "Finite 10" "Finite 0" "Finite 1" "Finite 12"]
    by (simp add: inf_of_sign_def o1 o2 o3 o4 o5 o6 o7 o8 del: fadd.simps(1) fmul.simps(1)
    fquot.simps(1))
qed

text \<open>
  C2 as stated fails for a negative noise parameter, which the constructor accepts:
  with measurement noise \<open>-0.5\<close> the gain of the second update is \<open>2\<close>, and the
  error estimate it leaves is \<open>-1\<close>.
\<close>

theorem gain_exceeds_one_for_negative_noise:
  "session (Finite 0) (Finite (- (1 / 2))) [Finite 0] =
     Inr (\<lparr>process_noise = Finite 0, measurement_noise = Finite (- (1 / 2)),
        estimate = Finite 0,
        error_estimate = Finite 1,
        initialized = True\<rparr>, [Finite 0]) \<and>
   kalman_gain \<lparr>process_noise = Finite 0, measurement_noise = Finite (- (1 / 2)),
        estimate = Finite 0,
        error_estimate = Finite 1,
        initialized = True\<rparr> = Inr (Finite 2) \<and>
   update \<lparr>process_noise = Finite 0, measurement_noise = Finite (- (1 / 2)),
        estimate = Finite 0,
        error_estimate = Finite 1,
        initialized = True\<rparr> (Finite 1) =
     Inr (\<lparr>process_noise = Finite 0, measurement_noise = Finite (- (1 / 2)),
           estimate = Finite 2,
           error_estimate = Finite (- 1),
           initialized = True\<rparr>, Finite 2)"
proof -
  have o1: "fadd (Finite 1) (Finite 0) = Finite 1"
    unfolding fadd.simps by (rule round64_eval [where E = "0" and n = "4503599627370496"]) (simp_all add: round_half_even_def huge_def power_divide)
  have o2: "fadd (Finite 1) (Finite (- (1 / 2))) = Finite (1 / 2)"
    unfolding fadd.simps by (rule round64_eval [where E = "- 1" and n = "4503599627370496"]) (simp_all add: round_half_even_def huge_def power_divide)
  have o3: "fquot (Finite 1) (Finite (1 / 2)) = Finite 2"
    unfolding fquot.simps by (rule round64_eval [where E = "1" and n = "4503599627370496"]) (simp_all add: round_half_even_def huge_def power_divide)
  have o4: "fsub (Finite 1) (Finite 0) = Finite 1"
    unfolding fsub_def fneg.simps fadd.simps by (rule round64_eval [where E = "0" and n = "4503599627370496"]) (simp_all add: round_half_even_def huge_def power_divide)
  have o5: "fmul (Finite 2) (Finite 1) = Finite 2"
    unfolding fmul.simps by (rule round64_eval [where E = "1" and n = "4503599627370496"]) (simp_all add: round_half_even_def huge_def power_divide)
  have o6: "fadd (Finite 0) (Finite 2) = Finite 2"
    unfolding fadd.simps by (rule round64_eval [where E = "1" and n = "4503599627370496"]) (simp_all add: round_half_even_def huge_def power_divide)
  have o7: "fsub (Finite 1) (Finite 2) = Finite (- 1)"
    unfolding fsub_def fneg.simps fadd.simps by (rule round64_eval_neg, rule round64_eval [where E = "0" and n = "4503599627370496"]) (simp_all add: round_half_even_def huge_def power_divide)
  have o8: "fmul (Finite (- 1)) (Finite 1) = Finite (- 1)"
    unfolding fmul.simps by (rule round64_eval_neg, rule round64_eval [where E = "0" and n = "4503599627370496"]) (simp_all add: round_half_even_def huge_def power_divide)
  show ?thesis
    by (simp add: eval_simps inf_of_sign_def o1 o2 o3 o4 o5 o6 o7 o8 del: fadd.simps(1)
    fmul.simps(1) fquot.simps(1))
qed

text \<open>
  C2, amended. For every filter constructed with floats \<open>process_noise \<ge> 0\<close> and
  \<open>measurement_noise \<ge> 0\<close>, and every state reachable from construction by a
  sequence of updates: in an update that returns and whose predicted error is finite
  (it has not overflowed), the gain lies in \<open>[0, 1]\<close>, and the resulting error
  estimate is non-negative and at most the predicted error of that update.
\<close>

theorem gain_and_error_bounds:
  assumes "valid pn" "fle (Finite 0) pn" "valid mn" "fle (Finite 0) mn"
    and "session pn mn ms = Inr (self, ys)"
    and "update self m = Inr (self', y)"
    and "isfinite (predicted_error self)"
  shows "\<exists>K. kalman_gain self = Inr K \<and> fle (Finite 0) K \<and> fle K (Finite 1) \<and>
              fle (Finite 0) (error_estimate self') \<and>
              fle (error_estimate self') (predicted_error self)"
proof -
  define self0 where "self0 = \<lparr>process_noise = pn, measurement_noise = mn,
    estimate = Finite 0, error_estimate = Finite 1, initialized = False\<rparr>"
  from assms(5) have f: "feed self0 ms = Inr (self, ys)"
    by (simp add: session_feed self0_def)
  have p0: "error_estimate self0 = NaN \<or>
      (\<exists>a. error_estimate self0 = Finite a \<and> is_float a \<and> 0 \<le> a)"
    by (simp add: self0_def)
  have inv: "process_noise self = pn" "measurement_noise self = mn"
    "error_estimate self = NaN \<or> (\<exists>a. error_estimate self = Finite a \<and> is_float a \<and> 0 \<le> a)"
    using feed_invariant [OF f _ _ _ _ p0] assms(1-4) by (simp_all add: self0_def)
  from assms(7) obtain b where b: "predicted_error self = Finite b"
    by (cases "predicted_error self") simp_all
  then have "error_estimate self \<noteq> NaN" by (auto simp: predicted_error_def)
  with inv(3) obtain a where a: "error_estimate self = Finite a" "is_float a" "0 \<le> a" by blast
  have Q: "valid (process_noise self)" "fle (Finite 0) (process_noise self)"
    and R: "valid (measurement_noise self)" "fle (Finite 0) (measurement_noise self)"
    using inv(1,2) assms(1-4) by simp_all
  show ?thesis
  proof (cases "initialized self")
    case True
    from update_error_bounds [OF True Q R a b assms(6)] show ?thesis by (auto simp: b)
  next
    case False
    with feed_initialized [OF f] have s: "self = self0" by (auto split: if_splits)
    have e': "error_estimate self' = Finite 1"
      using assms(6) False by (auto simp: update_fresh s self0_def)
    have vp: "valid (error_estimate self)" "fle (Finite 0) (error_estimate self)" using a by simp_all
    from fadd_nn [OF vp Q] have pe: "is_float b" "0 \<le> b" "fle (error_estimate self) (Finite b)"
      by (simp_all add: predicted_error_def [symmetric] b)
    then have b1: "1 \<le> b" by (simp add: s self0_def)
    have vb: "valid (Finite b)" "fle (Finite 0) (Finite b)" using pe by simp_all
    define d where "d = fadd (predicted_error self) (measurement_noise self)"
    from fadd_nn [OF vb R] have d: "valid d" "fle (Finite b) d" by (simp_all add: d_def b)
    have nz: "d \<noteq> Finite 0" using d(2) b1 by (cases d) auto
    from fquot_unit [OF pe(1,2) d nz] obtain k where
      k: "fquot (Finite b) d = Finite k" "0 \<le> k" "k \<le> 1" by blast
    have "kalman_gain self = Inr (Finite k)"
      using nz k(1) by (simp add: kalman_gain_def fdiv_def d_def b)
    with k e' b1 show ?thesis by (simp add: b)
  qed
qed

theorem gain_and_error_bounds_witness:
  "valid (Finite 1) \<and> fle (Finite 0) (Finite 1) \<and>
   valid (Finite 10) \<and> fle (Finite 0) (Finite 10) \<and>
   session (Finite 1) (Finite 10) [Finite 0] =
     Inr (\<lparr>process_noise = Finite 1, measurement_noise = Finite 10,
        estimate = Finite 0,
        error_estimate = Finite 1,
        initialized = True\<rparr>, [Finite 0]) \<and>
   update \<lparr>process_noise = Finite 1, measurement_noise = Finite 10,
        estimate = Finite 0,
        error_estimate = Finite 1,
        initialized = True\<rparr> (Finite 12) =
     Inr (\<lparr>process_noise = Finite 1, measurement_noise = Finite 10,
           estimate = Finite 2,
           error_estimate = Finite (7505999378950827 / 4503599627370496),
           initialized = True\<rparr>, Finite 2) \<and>
   isfinite (predicted_error \<lparr>process_noise = Finite 1, measurement_noise = Finite 10,
        estimate = Finite 0,
        error_estimate = Finite 1,
        initialized = True\<rparr>) \<and>
   (\<exists>K. kalman_gain \<lparr>process_noise = Finite 1, measurement_noise = Finite 10,
        estimate = Finite 0,
        error_estimate = Finite 1,
        initialized = True\<rparr> = Inr K \<and>
      fle (Finite 0) K \<and> fle K (Finite 1) \<and>
      fle (Finite 0) (error_estimate \<lparr>process_noise = Finite 1, measurement_noise = Finite 10,
           estimate = Finite 2,
           error_estimate = Finite (7505999378950827 / 4503599627370496),
           initialized = True\<rparr>) \<and>
      fle (error_estimate \<lparr>process_noise = Finite 1, measurement_noise = Finite 10,
           estimate = Finite 2,
           error_estimate = Finite (7505999378950827 / 4503599627370496),
           initialized = True\<rparr>)
        (predicted_error \<lparr>process_noise = Finite 1, measurement_noise = Finite 10,
        estimate = Finite 0,
        error_estimate = Finite 1,
        initialized = True\<rparr>))"
proof -
  have o1: "fadd (Finite 1) (Finite 1) = Finite 2"
    unfolding fadd.simps by (rule round64_eval [where E = "1" and n = "4503599627370496"]) (simp_all add: round_half_even_def huge_def power_divide)
  have o2: "fadd (Finite 2) (Finite 10) = Finite 12"
    unfolding fadd.simps by (rule round64_eval [where E = "3" and n = "6755399441055744"]) (simp_all add: round_half_even_def huge_def power_divide)
  have o3: "fquot (Finite 2) (Finite 12) = Finite (6004799503160661 / 36028797018963968)"
    unfolding fquot.simps by (rule round64_eval [where E = "- 3" and n = "6004799503160661"]) (simp_all add: round_half_even_def huge_def power_divide)
  have o4: "fsub (Finite 12) (Finite 0) = Finite 12"
    unfolding fsub_def fneg.simps fadd.simps by (rule round64_eval [where E = "3" and n = "6755399441055744"]) (simp_all add: round_half_even_def huge_def power_divide)
  have o5: "fmul (Finite (6004799503160661 / 36028797018963968)) (Finite 12) = Finite 2"
    unfolding fmul.simps by (rule round64_eval [where E = "0" and n = "9007199254740992"]) (simp_all add: round_half_even_def huge_def power_divide)
  have o6: "fadd (Finite 0) (Finite 2) = Finite 2"
    unfolding fadd.simps by (rule round64_eval [where E = "1" and n = "4503599627370496"]) (simp_all add: round_half_even_def huge_def power_divide)
  have o7: "fsub (Finite 1) (Finite (6004799503160661 / 36028797018963968)) = Finite (7505999378950827 / 9007199254740992)"
    unfolding fsub_def fneg.simps fadd.simps by (rule round64_eval [where E = "- 1" and n = "7505999378950827"]) (simp_all add: round_half_even_def huge_def power_divide)
  have o8: "fmul (Finite (7505999378950827 / 9007199254740992)) (Finite 2) = Finite (7505999378950827 / 4503599627370496)"
    unfolding fmul.simps by (rule round64_eval [where E = "0" and n = "7505999378950827"]) (simp_all add: round_half_even_def huge_def power_divide)
  have a: "valid (Finite 1)" and b: "fle (Finite 0) (Finite 1)" by simp_all
  have c: "valid (Finite 10)" and d: "fle (Finite 0) (Finite 10)"
    by (simp_all add: is_float_numeral)
  have e: "session (Finite 1) (Finite 10) [Finite 0] =
     Inr (\<lparr>process_noise = Finite 1, measurement_noise = Finite 10,
        estimate = Finite 0,
        error_estimate = Finite 1,
        initialized = True\<rparr>, [Finite 0])"
    by (simp add: eval_simps)
  have f: "update \<lparr>process_noise = Finite 1, measurement_noise = Finite 10,
        estimate = Finite 0,
        error_estimate = Finite 1,
        initialized = True\<rparr> (Finite 12) =
     Inr (\<lparr>process_noise = Finite 1, measurement_noise = Finite 10,
           estimate = Finite 2,
           error_estimate = Finite (7505999378950827 / 4503599627370496),
           initialized = True\<rparr>, Finite 2)"
    by (simp add: eval_simps inf_of_sign_def o1 o2 o3 o4 o5 o6 o7 o8 del: fadd.simps(1)
    fmul.simps(1) fquot.simps(1))
  have g: "isfinite (predicted_error \<lparr>process_noise = Finite 1, measurement_noise = Finite 10,
        estimate = Finite 0,
        error_estimate = Finite 1,
        initialized = True\<rparr>)"
    by (simp add: predicted_error_def inf_of_sign_def o1 o2 o3 o4 o5 o6 o7 o8 del:
    fadd.simps(1) fmul.simps(1) fquot.simps(1))
  from gain_and_error_bounds [OF a b c d e f g] a b c d e f g show ?thesis by blast
qed

text \<open>
  C3 as stated fails: the output depends on the error estimate too. With the default
  parameters, the histories \<open>[0]\<close> and \<open>[0, 0]\<close> both reach the estimate \<open>0\<close>, with
  different error estimates; the next measurement \<open>12\<close> gives \<open>2.0\<close> after the
  first and \<open>2.5263157894736845\<close> after the second.
\<close>

theorem same_estimate_different_output:
  "session (Finite 1) (Finite 10) [Finite 0] =
     Inr (\<lparr>process_noise = Finite 1, measurement_noise = Finite 10,
           estimate = Finite 0,
           error_estimate = Finite 1,
           initialized = True\<rparr>, [Finite 0]) \<and>
   session (Finite 1) (Finite 10) [Finite 0, Finite 0] =
     Inr (\<lparr>process_noise = Finite 1, measurement_noise = Finite 10,
           estimate = Finite 0,
           error_estimate = Finite (7505999378950827 / 4503599627370496),
           initialized = True\<rparr>, [Finite 0, Finite 0]) \<and>
   map_sum id snd (update \<lparr>process_noise = Finite 1, measurement_noise = Finite 10,
           estimate = Finite 0,
           error_estimate = Finite 1,
           initialized = True\<rparr> (Finite 12)) =
     Inr (Finite 2) \<and>
   map_sum id snd (update \<lparr>process_noise = Finite 1, measurement_noise = Finite 10,
           estimate = Finite 0,
           error_estimate = Finite (7505999378950827 / 4503599627370496),
           initialized = True\<rparr> (Finite 12)) =
     Inr (Finite (5688757424046943 / 2251799813685248))"
proof -
  have o1: "fadd (Finite 1) (Finite 1) = Finite 2"
    unfolding fadd.simps by (rule round64_eval [where E = "1" and n = "4503599627370496"]) (simp_all add: round_half_even_def huge_def power_divide)
  have o2: "fadd (Finite 2) (Finite 10) = Finite 12"
    unfolding fadd.simps by (rule round64_eval [where E = "3" and n = "6755399441055744"]) (simp_all add: round_half_even_def huge_def power_divide)
  have o3: "fquot (Finite 2) (Finite 12) = Finite (6004799503160661 / 36028797018963968)"
    unfolding fquot.simps by (rule round64_eval [where E = "- 3" and n = "6004799503160661"]) (simp_all add: round_half_even_def huge_def power_divide)
  have o4: "fsub (Finite 0) (Finite 0) = Finite 0"
    unfolding fsub_def fneg.simps fadd.simps by (rule round64_eval_zero) simp
  have o5: "fmul (Finite (6004799503160661 / 36028797018963968)) (Finite 0) = Finite 0"
    unfolding fmul.simps by (rule round64_eval_zero) simp
  have o6: "fadd (Finite 0) (Finite 0) = Finite 0"
    unfolding fadd.simps by (rule round64_eval_zero) simp
  have o7: "fsub (Finite 1) (Finite (6004799503160661 / 36028797018963968)) = Finite (7505999378950827 / 9007199254740992)"
    unfolding fsub_def fneg.simps fadd.simps by (rule round64_eval [where E = "- 1" and n = "7505999378950827"]) (simp_all add: round_half_even_def huge_def power_divide)
  have o8: "fmul (Finite (7505999378950827 / 9007199254740992)) (Finite 2) = Finite (7505999378950827 / 4503599627370496)"
    unfolding fmul.simps by (rule round64_eval [where E = "0" and n = "7505999378950827"]) (simp_all add: round_half_even_def huge_def power_divide)
  have o9: "fsub (Finite 12) (Finite 0) = Finite 12"
    unfolding fsub_def fneg.simps fadd.simps by (rule round64_eval [where E = "3" and n = "6755399441055744"]) (simp_all add: round_half_even_def huge_def power_divide)
  have o10: "fmul (Finite (6004799503160661 / 36028797018963968)) (Finite 12) = Finite 2"
    unfolding fmul.simps by (rule round64_eval [where E = "0" and n = "9007199254740992"]) (simp_all add: round_half_even_def huge_def power_divide)
  have o11: "fadd (Finite 0) (Finite 2) = Finite 2"
    unfolding fadd.simps by (rule round64_eval [where E = "1" and n = "4503599627370496"]) (simp_all add: round_half_even_def huge_def power_divide)
  have o12: "fadd (Finite (7505999378950827 / 4503599627370496)) (Finite 1) = Finite (3002399751580331 / 1125899906842624)"
    unfolding fadd.simps by (rule round64_eval [where E = "1" and n = "6004799503160662"]) (simp_all add: round_half_even_def huge_def power_divide)
  have o13: "fadd (Finite (3002399751580331 / 1125899906842624)) (Finite 10) = Finite (3565349705001643 / 281474976710656)"
    unfolding fadd.simps by (rule round64_eval [where E = "3" and n = "7130699410003286"]) (simp_all add: round_half_even_def huge_def power_divide)
  have o14: "fquot (Finite (3002399751580331 / 1125899906842624)) (Finite (3565349705001643 / 281474976710656)) = Finite (7585009898729257 / 36028797018963968)"
    unfolding fquot.simps by (rule round64_eval [where E = "- 3" and n = "7585009898729257"]) (simp_all add: round_half_even_def huge_def power_divide)
  have o15: "fmul (Finite (7585009898729257 / 36028797018963968)) (Finite 12) = Finite (5688757424046943 / 2251799813685248)"
    unfolding fmul.simps by (rule round64_eval [where E = "1" and n = "5688757424046943"]) (simp_all add: round_half_even_def huge_def power_divide)
  have o16: "fadd (Finite 0) (Finite (5688757424046943 / 2251799813685248)) = Finite (5688757424046943 / 2251799813685248)"
    unfolding fadd.simps by (rule round64_eval [where E = "1" and n = "5688757424046943"]) (simp_all add: round_half_even_def huge_def power_divide)
  have o17: "fsub (Finite 1) (Finite (7585009898729257 / 36028797018963968)) = Finite (3555473390029339 / 4503599627370496)"
    unfolding fsub_def fneg.simps fadd.simps by (rule round64_eval [where E = "- 1" and n = "7110946780058678"]) (simp_all add: round_half_even_def huge_def power_divide)
  have o18: "fmul (Finite (3555473390029339 / 4503599627370496)) (Finite (3002399751580331 / 1125899906842624)) = Finite (2370315593352893 / 1125899906842624)"
    unfolding fmul.simps by (rule round64_eval [where E = "1" and n = "4740631186705786"]) (simp_all add: round_half_even_def huge_def power_divide)
  show ?thesis
    by (simp add: eval_simps inf_of_sign_def o1 o2 o3 o4 o5 o6 o7 o8 o9 o10 o11 o12 o13 o14
    o15 o16 o17 o18 del: fadd.simps(1) fmul.simps(1) fquot.simps(1))
qed

text \<open>
  C3, amended. For two filters with the same construction parameters whose histories,
  of the same number of measurements but possibly different values, have brought them
  to the same estimate, the same next measurement yields identical results (the same
  returned value and the same new state, or the same exception).
\<close>

theorem markov_for_equal_history_length:
  assumes "session pn mn ms1 = Inr (s1, ys1)" "session pn mn ms2 = Inr (s2, ys2)"
    and "length ms1 = length ms2" "estimate s1 = estimate s2"
  shows "update s1 m = update s2 m"
proof -
  define self0 where "self0 = \<lparr>process_noise = pn, measurement_noise = mn,
    estimate = Finite 0, error_estimate = Finite 1, initialized = False\<rparr>"
  from assms(1,2) have f: "feed self0 ms1 = Inr (s1, ys1)" "feed self0 ms2 = Inr (s2, ys2)"
    by (simp_all add: session_feed self0_def)
  from feed_variance_part [OF assms(3) refl, of self0] f
  have "variance_part s1 = variance_part s2" by simp
  with assms(4) have "s1 = s2" by (cases s1; cases s2) (simp add: variance_part_def)
  then show ?thesis by simp
qed

theorem markov_for_equal_history_length_witness:
  "session (Finite 1) (Finite 10) [Finite 0, Finite 12] =
     Inr (\<lparr>process_noise = Finite 1, measurement_noise = Finite 10,
           estimate = Finite 2,
           error_estimate = Finite (7505999378950827 / 4503599627370496),
           initialized = True\<rparr>, [Finite 0, Finite 2]) \<and>
   session (Finite 1) (Finite 10) [Finite 2, Finite 2] =
     Inr (\<lparr>process_noise = Finite 1, measurement_noise = Finite 10,
           estimate = Finite 2,
           error_estimate = Finite (7505999378950827 / 4503599627370496),
           initialized = True\<rparr>, [Finite 2, Finite 2]) \<and>
   length [Finite 0, Finite 12] = length [Finite 2, Finite 2] \<and>
   update \<lparr>process_noise = Finite 1, measurement_noise = Finite 10,
           estimate = Finite 2,
           error_estimate = Finite (7505999378950827 / 4503599627370496),
           initialized = True\<rparr> (Finite 7) =
   update \<lparr>process_noise = Finite 1, measurement_noise = Finite 10,
           estimate = Finite 2,
           error_estimate = Finite (7505999378950827 / 4503599627370496),
           initialized = True\<rparr> (Finite 7)"
proof -
  have o1: "fadd (Finite 1) (Finite 1) = Finite 2"
    unfolding fadd.simps by (rule round64_eval [where E = "1" and n = "4503599627370496"]) (simp_all add: round_half_even_def huge_def power_divide)
  have o2: "fadd (Finite 2) (Finite 10) = Finite 12"
    unfolding fadd.simps by (rule round64_eval [where E = "3" and n = "6755399441055744"]) (simp_all add: round_half_even_def huge_def power_divide)
  have o3: "fquot (Finite 2) (Finite 12) = Finite (6004799503160661 / 36028797018963968)"
    unfolding fquot.simps by (rule round64_eval [where E = "- 3" and n = "6004799503160661"]) (simp_all add: round_half_even_def huge_def power_divide)
  have o4: "fsub (Finite 12) (Finite 0) = Finite 12"
    unfolding fsub_def fneg.simps fadd.simps by (rule round64_eval [where E = "3" and n = "6755399441055744"]) (simp_all add: round_half_even_def huge_def power_divide)
  have o5: "fmul (Finite (6004799503160661 / 36028797018963968)) (Finite 12) = Finite 2"
    unfolding fmul.simps by (rule round64_eval [where E = "0" and n = "9007199254740992"]) (simp_all add: round_half_even_def huge_def power_divide)
  have o6: "fadd (Finite 0) (Finite 2) = Finite 2"
    unfolding fadd.simps by (rule round64_eval [where E = "1" and n = "4503599627370496"]) (simp_all add: round_half_even_def huge_def power_divide)
  have o7: "fsub (Finite 1) (Finite (6004799503160661 / 36028797018963968)) = Finite (7505999378950827 / 9007199254740992)"
    unfolding fsub_def fneg.simps fadd.simps by (rule round64_eval [where E = "- 1" and n = "7505999378950827"]) (simp_all add: round_half_even_def huge_def power_divide)
  have o8: "fmul (Finite (7505999378950827 / 9007199254740992)) (Finite 2) = Finite (7505999378950827 / 4503599627370496)"
    unfolding fmul.simps by (rule round64_eval [where E = "0" and n = "7505999378950827"]) (simp_all add: round_half_even_def huge_def power_divide)
  have o9: "fsub (Finite 2) (Finite 2) = Finite 0"
    unfolding fsub_def fneg.simps fadd.simps by (rule round64_eval_zero) simp
  have o10: "fmul (Finite (6004799503160661 / 36028797018963968)) (Finite 0) = Finite 0"
    unfolding fmul.simps by (rule round64_eval_zero) simp
  have o11: "fadd (Finite 2) (Finite 0) = Finite 2"
    unfolding fadd.simps by (rule round64_eval [where E = "1" and n = "4503599627370496"]) (simp_all add: round_half_even_def huge_def power_divide)
  have a: "session (Finite 1) (Finite 10) [Finite 0, Finite 12] =
     Inr (\<lparr>process_noise = Finite 1, measurement_noise = Finite 10,
           estimate = Finite 2,
           error_estimate = Finite (7505999378950827 / 4503599627370496),
           initialized = True\<rparr>, [Finite 0, Finite 2])"
    by (simp add: eval_simps inf_of_sign_def o1 o2 o3 o4 o5 o6 o7 o8 o9 o10 o11 del:
    fadd.simps(1) fmul.simps(1) fquot.simps(1))
  have b: "session (Finite 1) (Finite 10) [Finite 2, Finite 2] =
     Inr (\<lparr>process_noise = Finite 1, measurement_noise = Finite 10,
           estimate = Finite 2,
           error_estimate = Finite (7505999378950827 / 4503599627370496),
           initialized = True\<rparr>, [Finite 2, Finite 2])"
    by (simp add: eval_simps inf_of_sign_def o1 o2 o3 o4 o5 o6 o7 o8 o9 o10 o11 del:
    fadd.simps(1) fmul.simps(1) fquot.simps(1))
  have c: "length [Finite 0, Finite 12] = length [Finite 2, Finite 2]" by simp
  from markov_for_equal_history_length [OF a b c, of "Finite 7"] a b c show ?thesis by simp
qed




text \<open>
  C9 as stated fails once the predicted error has overflowed: with both noise
  parameters \<open>2^1023\<close> the third update computes \<open>inf / inf\<close>, the error estimate
  becomes NaN, and the divisor of the next update is NaN, which is not strictly
  positive.
\<close>

theorem divisor_nan_after_overflow:
  "valid (Finite (2 ^ 1023)) \<and> fle (Finite 0) (Finite (2 ^ 1023)) \<and>
   flt (Finite 0) (Finite (2 ^ 1023)) \<and>
   session (Finite (2 ^ 1023)) (Finite (2 ^ 1023)) [Finite 5, Finite 5, Finite 5] =
     Inr (\<lparr>process_noise = Finite (2 ^ 1023), measurement_noise = Finite (2 ^ 1023),
           estimate = NaN,
           error_estimate = NaN,
           initialized = True\<rparr>, [Finite 5, Finite 5, NaN]) \<and>
   fadd (predicted_error \<lparr>process_noise = Finite (2 ^ 1023), measurement_noise = Finite (2 ^ 1023),
           estimate = NaN,
           error_estimate = NaN,
           initialized = True\<rparr>)
        (Finite (2 ^ 1023)) = NaN \<and>
   \<not> flt (Finite 0) NaN"
proof -
  have o1: "fadd (Finite 1) (Finite 89884656743115795386465259539451236680898848947115328636715040578866337902750481566354238661203768010560056939935696678829394884407208311246423715319737062188883946712432742638151109800623047059726541476042502884419075341171231440736956555270413618581675255342293149119973622969239858152417678164812112068608) = Finite 89884656743115795386465259539451236680898848947115328636715040578866337902750481566354238661203768010560056939935696678829394884407208311246423715319737062188883946712432742638151109800623047059726541476042502884419075341171231440736956555270413618581675255342293149119973622969239858152417678164812112068608"
    unfolding fadd.simps by (rule round64_eval [where E = "1023" and n = "4503599627370496"]) (simp_all add: round_half_even_def huge_def power_divide)
  have o2: "fadd (Finite 89884656743115795386465259539451236680898848947115328636715040578866337902750481566354238661203768010560056939935696678829394884407208311246423715319737062188883946712432742638151109800623047059726541476042502884419075341171231440736956555270413618581675255342293149119973622969239858152417678164812112068608) (Finite 89884656743115795386465259539451236680898848947115328636715040578866337902750481566354238661203768010560056939935696678829394884407208311246423715319737062188883946712432742638151109800623047059726541476042502884419075341171231440736956555270413618581675255342293149119973622969239858152417678164812112068608) = PInf"
    unfolding fadd.simps by (rule round64_eval_inf) (simp add: huge_def power_divide)
  have o3: "fquot (Finite 89884656743115795386465259539451236680898848947115328636715040578866337902750481566354238661203768010560056939935696678829394884407208311246423715319737062188883946712432742638151109800623047059726541476042502884419075341171231440736956555270413618581675255342293149119973622969239858152417678164812112068608) PInf = Finite 0"
    by (simp add: fsub_def inf_of_sign_def)
  have o4: "fsub (Finite 5) (Finite 5) = Finite 0"
    unfolding fsub_def fneg.simps fadd.simps by (rule round64_eval_zero) simp
  have o5: "fmul (Finite 0) (Finite 0) = Finite 0"
    unfolding fmul.simps by (rule round64_eval_zero) simp
  have o6: "fadd (Finite 5) (Finite 0) = Finite 5"
    unfolding fadd.simps by (rule round64_eval [where E = "2" and n = "5629499534213120"]) (simp_all add: round_half_even_def huge_def power_divide)
  have o7: "fsub (Finite 1) (Finite 0) = Finite 1"
    unfolding fsub_def fneg.simps fadd.simps by (rule round64_eval [where E = "0" and n = "4503599627370496"]) (simp_all add: round_half_even_def huge_def power_divide)
  have o8: "fmul (Finite 1) (Finite 89884656743115795386465259539451236680898848947115328636715040578866337902750481566354238661203768010560056939935696678829394884407208311246423715319737062188883946712432742638151109800623047059726541476042502884419075341171231440736956555270413618581675255342293149119973622969239858152417678164812112068608) = Finite 89884656743115795386465259539451236680898848947115328636715040578866337902750481566354238661203768010560056939935696678829394884407208311246423715319737062188883946712432742638151109800623047059726541476042502884419075341171231440736956555270413618581675255342293149119973622969239858152417678164812112068608"
    unfolding fmul.simps by (rule round64_eval [where E = "1023" and n = "4503599627370496"]) (simp_all add: round_half_even_def huge_def power_divide)
  have o9: "fadd PInf (Finite 89884656743115795386465259539451236680898848947115328636715040578866337902750481566354238661203768010560056939935696678829394884407208311246423715319737062188883946712432742638151109800623047059726541476042502884419075341171231440736956555270413618581675255342293149119973622969239858152417678164812112068608) = PInf"
    by (simp add: fsub_def inf_of_sign_def)
  have o10: "fquot PInf PInf = NaN"
    by (simp add: fsub_def inf_of_sign_def)
  have o11: "fmul NaN (Finite 0) = NaN"
    by (simp add: fsub_def inf_of_sign_def)
  have o12: "fadd (Finite 5) NaN = NaN"
    by (simp add: fsub_def inf_of_sign_def)
  have o13: "fsub (Finite 1) NaN = NaN"
    by (simp add: fsub_def inf_of_sign_def)
  have o14: "fmul NaN PInf = NaN"
    by (simp add: fsub_def inf_of_sign_def)
  have o15: "fadd NaN (Finite 89884656743115795386465259539451236680898848947115328636715040578866337902750481566354238661203768010560056939935696678829394884407208311246423715319737062188883946712432742638151109800623047059726541476042502884419075341171231440736956555270413618581675255342293149119973622969239858152417678164812112068608) = NaN"
    by (simp add: fsub_def inf_of_sign_def)
  have v: "is_float (2 ^ 1023)" by (rule is_float_pow2) simp
  show ?thesis
    using v
    by (simp add: eval_simps inf_of_sign_def o1 o2 o3 o4 o5 o6 o7 o8 o9 o10 o11 o12 o13 o14
    o15 del: fadd.simps(1) fmul.simps(1) fquot.simps(1))
qed

text \<open>
  C9, amended. For every filter constructed with floats \<open>process_noise \<ge> 0\<close> and
  \<open>measurement_noise > 0\<close>, every sequence of updates returns, and in the state it
  reaches the divisor \<open>predicted_error + measurement_noise\<close> is strictly positive or
  NaN, never zero, so the next update returns as well: \<^verbatim>\<open>update\<close> never raises.
  When moreover \<open>process_noise \<le> 2^1021\<close> and \<open>measurement_noise \<le> 2^1020\<close>, the
  divisor is strictly positive in every reachable state.
\<close>

theorem update_never_raises:
  assumes "valid pn" "fle (Finite 0) pn" "valid mn" "flt (Finite 0) mn"
  shows "\<exists>self ys. session pn mn ms = Inr (self, ys) \<and>
           (flt (Finite 0) (fadd (predicted_error self) (measurement_noise self)) \<or>
            fadd (predicted_error self) (measurement_noise self) = NaN) \<and>
           (fle pn (Finite (2 ^ 1021)) \<and> fle mn (Finite (2 ^ 1020)) \<longrightarrow>
              flt (Finite 0) (fadd (predicted_error self) (measurement_noise self))) \<and>
           (\<exists>self' y. update self m = Inr (self', y))"
proof -
  define self0 where "self0 = \<lparr>process_noise = pn, measurement_noise = mn,
    estimate = Finite 0, error_estimate = Finite 1, initialized = False\<rparr>"
  have Q0: "valid (process_noise self0)" "fle (Finite 0) (process_noise self0)"
    and R0: "valid (measurement_noise self0)" "flt (Finite 0) (measurement_noise self0)"
    using assms by (simp_all add: self0_def)
  have p0: "error_estimate self0 = NaN \<or>
      (\<exists>a. error_estimate self0 = Finite a \<and> is_float a \<and> 0 \<le> a)"
    by (simp add: self0_def)
  from feed_total [OF Q0 R0 p0] obtain self ys where f: "feed self0 ms = Inr (self, ys)"
    by blast
  from feed_invariant [OF f Q0 R0(1) flt_imp_fle [OF R0(2)] p0]
  have inv: "process_noise self = pn" "measurement_noise self = mn"
    "error_estimate self = NaN \<or> (\<exists>a. error_estimate self = Finite a \<and> is_float a \<and> 0 \<le> a)"
    by (simp_all add: self0_def)
  have Q: "valid (process_noise self)" "fle (Finite 0) (process_noise self)"
    and R: "valid (measurement_noise self)" "flt (Finite 0) (measurement_noise self)"
    using inv(1,2) assms by simp_all
  have d: "flt (Finite 0) (fadd (predicted_error self) (measurement_noise self)) \<or>
           fadd (predicted_error self) (measurement_noise self) = NaN"
    using divisor_positive [OF Q R inv(3)] by blast
  have u: "\<exists>self' y. update self m = Inr (self', y)"
    using update_total [OF Q R inv(3)] .
  have b: "flt (Finite 0) (fadd (predicted_error self) (measurement_noise self))"
    if bd: "fle pn (Finite (2 ^ 1021)) \<and> fle mn (Finite (2 ^ 1020))"
  proof -
    define B :: real where "B = 2 ^ 1021"
    from bd assms(1,2) obtain q where q: "pn = Finite q" "is_float q" "0 \<le> q" "q \<le> B"
      by (cases pn) (simp_all add: B_def)
    from bd assms(3,4) obtain r where r: "mn = Finite r" "is_float r" "0 \<le> r" "2 * r \<le> B"
      by (cases mn) (simp_all add: B_def)
    have B: "is_float B" "is_float (2 * B)" "4 * B < huge"
    proof -
      show "is_float B" unfolding B_def by (rule is_float_pow2) simp
      have "2 * B = 2 ^ 1022" by (simp add: B_def)
      then show "is_float (2 * B)" using is_float_pow2 [of 1022] by simp
      show "4 * B < huge" by (simp add: B_def huge_def)
    qed
    have p0': "\<exists>a. error_estimate self0 = Finite a \<and> is_float a \<and> 0 \<le> a \<and> a \<le> B"
      by (simp add: self0_def B_def)
    have Q0': "process_noise self0 = Finite q" and R0': "measurement_noise self0 = Finite r"
      by (simp_all add: self0_def q r)
    from feed_error_bounded [OF f Q0' q(2-4) R0' r(2-4) p0' B] obtain a where
      a: "error_estimate self = Finite a" "is_float a" "0 \<le> a" by blast
    from divisor_positive_finite [OF Q R a] show ?thesis .
  qed
  from f d u b show ?thesis by (auto simp: session_feed self0_def)
qed

theorem update_never_raises_witness:
  "valid (Finite 0) \<and> fle (Finite 0) (Finite 0) \<and>
   valid (Finite 10) \<and> flt (Finite 0) (Finite 10) \<and>
   fle (Finite 0) (Finite (2 ^ 1021)) \<and> fle (Finite 10) (Finite (2 ^ 1020)) \<and>
   (\<exists>self ys. session (Finite 0) (Finite 10) [Finite 3, Finite 4] = Inr (self, ys) \<and>
      flt (Finite 0) (fadd (predicted_error self) (measurement_noise self)) \<and>
      (\<exists>self' y. update self (Finite 5) = Inr (self', y)))"
proof -
  have a: "valid (Finite 0)" and b: "fle (Finite 0) (Finite 0)" by simp_all
  have c: "valid (Finite 10)" and d: "flt (Finite 0) (Finite 10)"
    by (simp_all add: is_float_numeral)
  have e: "fle (Finite 0) (Finite (2 ^ 1021)) \<and> fle (Finite 10) (Finite (2 ^ 1020))" by simp
  from update_never_raises [OF a b c d, of "[Finite 3, Finite 4]" "Finite 5"] a b c d e
  show ?thesis by blast
qed

text \<open>
  C10. Two filters constructed with the same parameters and given the same number of
  updates end with equal error estimates whatever the measurements were (or both
  raise the same exception): the error estimate depends on the number of updates and
  the construction parameters only.
\<close>

theorem error_estimate_ignores_measurements:
  assumes "length ms1 = length ms2"
  shows "map_sum id (\<lambda>r. error_estimate (fst r)) (session pn mn ms1) =
         map_sum id (\<lambda>r. error_estimate (fst r)) (session pn mn ms2)"
proof -
  define self0 where "self0 = \<lparr>process_noise = pn, measurement_noise = mn,
    estimate = Finite 0, error_estimate = Finite 1, initialized = False\<rparr>"
  have s: "session pn mn ms1 = feed self0 ms1" "session pn mn ms2 = feed self0 ms2"
    by (simp_all add: session_feed self0_def)
  have "map_sum id (\<lambda>v. fst (snd (snd v)))
          (map_sum id (\<lambda>r. variance_part (fst r)) (feed self0 ms1)) =
        map_sum id (\<lambda>v. fst (snd (snd v)))
          (map_sum id (\<lambda>r. variance_part (fst r)) (feed self0 ms2))"
    using feed_variance_part [OF assms refl, of self0] by simp
  then show ?thesis
    by (simp add: s sum.map_comp comp_def variance_part_def id_def)
qed

theorem error_estimate_ignores_measurements_witness:
  "length [Finite 0, Finite 12] = length [Finite 3, Finite (- 4)] \<and>
   map_sum id (\<lambda>r. error_estimate (fst r))
     (session (Finite 1) (Finite 10) [Finite 0, Finite 12]) =
     Inr (Finite (7505999378950827 / 4503599627370496)) \<and>
   map_sum id (\<lambda>r. error_estimate (fst r))
     (session (Finite 1) (Finite 10) [Finite 3, Finite (- 4)]) =
     Inr (Finite (7505999378950827 / 4503599627370496))"
proof -
  have o1: "fadd (Finite 1) (Finite 1) = Finite 2"
    unfolding fadd.simps by (rule round64_eval [where E = "1" and n = "4503599627370496"]) (simp_all add: round_half_even_def huge_def power_divide)
  have o2: "fadd (Finite 2) (Finite 10) = Finite 12"
    unfolding fadd.simps by (rule round64_eval [where E = "3" and n = "6755399441055744"]) (simp_all add: round_half_even_def huge_def power_divide)
  have o3: "fquot (Finite 2) (Finite 12) = Finite (6004799503160661 / 36028797018963968)"
    unfolding fquot.simps by (rule round64_eval [where E = "- 3" and n = "6004799503160661"]) (simp_all add: round_half_even_def huge_def power_divide)
  have o4: "fsub (Finite 12) (Finite 0) = Finite 12"
    unfolding fsub_def fneg.simps fadd.simps by (rule round64_eval [where E = "3" and n = "6755399441055744"]) (simp_all add: round_half_even_def huge_def power_divide)
  have o5: "fmul (Finite (6004799503160661 / 36028797018963968)) (Finite 12) = Finite 2"
    unfolding fmul.simps by (rule round64_eval [where E = "0" and n = "9007199254740992"]) (simp_all add: round_half_even_def huge_def power_divide)
  have o6: "fadd (Finite 0) (Finite 2) = Finite 2"
    unfolding fadd.simps by (rule round64_eval [where E = "1" and n = "4503599627370496"]) (simp_all add: round_half_even_def huge_def power_divide)
  have o7: "fsub (Finite 1) (Finite (6004799503160661 / 36028797018963968)) = Finite (7505999378950827 / 9007199254740992)"
    unfolding fsub_def fneg.simps fadd.simps by (rule round64_eval [where E = "- 1" and n = "7505999378950827"]) (simp_all add: round_half_even_def huge_def power_divide)
  have o8: "fmul (Finite (7505999378950827 / 9007199254740992)) (Finite 2) = Finite (7505999378950827 / 4503599627370496)"
    unfolding fmul.simps by (rule round64_eval [where E = "0" and n = "7505999378950827"]) (simp_all add: round_half_even_def huge_def power_divide)
  have o9: "fsub (Finite (- 4)) (Finite 3) = Finite (- 7)"
    unfolding fsub_def fneg.simps fadd.simps by (rule round64_eval_neg, rule round64_eval [where E = "2" and n = "7881299347898368"]) (simp_all add: round_half_even_def huge_def power_divide)
  have o10: "fmul (Finite (6004799503160661 / 36028797018963968)) (Finite (- 7)) = Finite (- (2627099782632789 / 2251799813685248))"
    unfolding fmul.simps by (rule round64_eval_neg, rule round64_eval [where E = "0" and n = "5254199565265578"]) (simp_all add: round_half_even_def huge_def power_divide)
  have o11: "fadd (Finite 3) (Finite (- (2627099782632789 / 2251799813685248))) = Finite (4128299658422955 / 2251799813685248)"
    unfolding fadd.simps by (rule round64_eval [where E = "0" and n = "8256599316845910"]) (simp_all add: round_half_even_def huge_def power_divide)
  have a: "length [Finite 0, Finite 12] = length [Finite 3, Finite (- 4)]" by simp
  have b: "map_sum id (\<lambda>r. error_estimate (fst r))
     (session (Finite 1) (Finite 10) [Finite 0, Finite 12]) =
     Inr (Finite (7505999378950827 / 4503599627370496))"
    by (simp add: eval_simps inf_of_sign_def o1 o2 o3 o4 o5 o6 o7 o8 o9 o10 o11 del:
    fadd.simps(1) fmul.simps(1) fquot.simps(1))
  from error_estimate_ignores_measurements [OF a, of "Finite 1" "Finite 10"] a b
  show ?thesis by simp
qed

section \<open>The claims about construction\<close>






section \<open>The claim about the moving average\<close>




end
